theory Spec2Isabelle
  imports Complex_Main "HOL-Library.Char_ord" "HOL-Library.List_Lexorder" "HOL-Library.Log_Nat"
begin

section \<open>Strings\<close>

text \<open>
  JavaScript strings are modelled as \<^typ>\<open>string\<close>. \<open>String.prototype.toLowerCase\<close> is
  modelled on the ASCII letters (every other character is left as it is); the keyword
  lists of the source are all ASCII. \<open>String.prototype.includes\<close> is substring search.
\<close>

definition toLowerChar :: "char \<Rightarrow> char" where
  "toLowerChar c = (if CHR ''A'' \<le> c \<and> c \<le> CHR ''Z''
     then (case c of Char b0 b1 b2 b3 b4 b5 b6 b7 \<Rightarrow> Char b0 b1 b2 b3 b4 True b6 b7)
     else c)"

definition toLowerCase :: "string \<Rightarrow> string" where
  "toLowerCase s = map toLowerChar s"

fun startsWith :: "string \<Rightarrow> string \<Rightarrow> bool" where
  "startsWith s [] = True"
| "startsWith [] (h # hs) = False"
| "startsWith (c # cs) (h # hs) = (c = h \<and> startsWith cs hs)"

fun str_includes :: "string \<Rightarrow> string \<Rightarrow> bool" where
  "str_includes [] h = (h = [])"
| "str_includes (c # cs) h = (startsWith (c # cs) h \<or> str_includes cs h)"

section \<open>Data model: the document tree\<close>

text \<open>
  A node of the Figma document as the analysers read it. Every field the source reads
  with \<open>?.\<close> is optional. The arrays \<open>children\<close>, \<open>fills\<close> and \<open>strokes\<close> are read
  everywhere as \<open>Array.isArray(x) ? x : []\<close>, so an absent array is the empty list.
  Numbers are JSON numbers: doubles, modelled by the real numbers of type \<^typ>\<open>real\<close>
  they stand for.
\<close>

datatype color = RGB real real real

record paint =
  ptype :: "string option"
  visible :: "bool option"
  color :: "color option"
  popacity :: "real option"

record box =
  box_width :: "real option"
  box_height :: "real option"

record vec =
  vec_x :: "real option"
  vec_y :: "real option"

record nattrs =
  node_id :: "string option"
  name :: "string option"
  type :: "string option"
  absoluteBoundingBox :: "box option"
  size_v :: "vec option"
  width :: "real option"
  height :: "real option"
  fills :: "paint list"
  strokes :: "paint list"
  opacity :: "real option"
  componentId :: "string option"
  characters :: "string option"
  cornerRadius :: "real option"
  rectangleCornerRadii :: "real list option"
  strokeWeight :: "real option"

datatype node = Node (attrs: nattrs) (kids: "node list")

text \<open>The JavaScript operators \<open>a ?? b\<close> on optional values and \<open>s || ""\<close> on optional strings.\<close>

definition nullish :: "'a option \<Rightarrow> 'a option \<Rightarrow> 'a option" where
  "nullish a b = (case a of Some v \<Rightarrow> Some v | None \<Rightarrow> b)"

definition str_or :: "string option \<Rightarrow> string \<Rightarrow> string" where
  "str_or s d = (case s of None \<Rightarrow> d | Some v \<Rightarrow> (if v = [] then d else v))"

section \<open>Name heuristics\<close>

definition iconHints :: "string list" where
  "iconHints = [''icon'', ''material-symbols'', ''mdi:'', ''majesticons:'', ''basil:'',
     ''fluent-color:'', ''devicon:'', ''ic:'', ''solar:'', ''lets-icons:'', ''iconamoon:'',
     ''fa-'', ''feather'']"

definition isIconComponentName :: "string \<Rightarrow> bool" where
  "isIconComponentName nm = list_ex (\<lambda>h. str_includes (toLowerCase nm) h) iconHints"

definition uiHints :: "string list" where
  "uiHints = [''button'', ''btn'', ''primary button'', ''secondary button'',
     ''card'', ''list item'', ''list-item'', ''item'',
     ''input'', ''text field'', ''textfield'', ''text-field'', ''search'',
     ''checkbox'', ''radio'', ''switch'', ''toggle'',
     ''dropdown'', ''select'', ''combobox'',
     ''chip'', ''badge'', ''pill'', ''tag'',
     ''avatar'', ''image avatar'',
     ''tab'', ''tabs'', ''navbar'', ''navigation'', ''header'', ''footer'',
     ''modal'', ''dialog'', ''sheet'', ''drawer'', ''toast'', ''snackbar'',
     ''progress'', ''slider'', ''stepper'']"

definition isUiComponentName :: "string \<Rightarrow> bool" where
  "isUiComponentName nm = list_ex (\<lambda>h. str_includes (toLowerCase nm) h) uiHints"

section \<open>Attribute extractors\<close>

definition hasAnySolidFill :: "node \<Rightarrow> bool" where
  "hasAnySolidFill n =
     list_ex (\<lambda>p. ptype p = Some ''SOLID'' \<and> visible p \<noteq> Some False \<and> color p \<noteq> None)
       (fills (attrs n))"

definition hasStroke :: "node \<Rightarrow> bool" where
  "hasStroke n = list_ex (\<lambda>s. visible s \<noteq> Some False) (strokes (attrs n))"

definition childTextCount :: "node \<Rightarrow> nat" where
  "childTextCount n =
     fold (\<lambda>ch count. if type (attrs ch) = Some ''TEXT'' then count + 1 else count) (kids n) 0"

text \<open>One round of the loop body of \<open>childIconLikeCount\<close>: two separate \<open>if\<close> statements.\<close>

definition iconLikeStep :: "node \<Rightarrow> nat \<Rightarrow> nat" where
  "iconLikeStep ch count =
     (let count1 = (if isIconComponentName (str_or (name (attrs ch)) '''') then count + 1 else count)
      in (if type (attrs ch) = Some ''INSTANCE'' \<and>
             (case name (attrs ch) of None \<Rightarrow> False | Some s \<Rightarrow> isIconComponentName s)
          then count1 + 1 else count1))"

definition childIconLikeCount :: "node \<Rightarrow> nat" where
  "childIconLikeCount n = fold iconLikeStep (kids n) 0"

text \<open>
  Geometry: \<open>node?.absoluteBoundingBox?.width ?? node?.size?.x ?? node?.width\<close>, and the
  same for the height.
\<close>

definition resolved_width :: "node \<Rightarrow> real option" where
  "resolved_width n =
     nullish (Option.bind (absoluteBoundingBox (attrs n)) box_width)
       (nullish (Option.bind (size_v (attrs n)) vec_x) (width (attrs n)))"

definition resolved_height :: "node \<Rightarrow> real option" where
  "resolved_height n =
     nullish (Option.bind (absoluteBoundingBox (attrs n)) box_height)
       (nullish (Option.bind (size_v (attrs n)) vec_y) (height (attrs n)))"

section \<open>The structural classifier\<close>

datatype kind = Button | Input | Card

definition kind_str :: "kind \<Rightarrow> string" where
  "kind_str k = (case k of Button \<Rightarrow> ''button'' | Input \<Rightarrow> ''input'' | Card \<Rightarrow> ''card'')"

definition classifyStructuralUi :: "node \<Rightarrow> kind option" where
  "classifyStructuralUi n =
    (let ty = type (attrs n) in
     if ty \<noteq> Some ''FRAME'' \<and> ty \<noteq> Some ''GROUP'' \<and> ty \<noteq> Some ''COMPONENT'' \<and>
        ty \<noteq> Some ''INSTANCE'' \<and> ty \<noteq> Some ''RECTANGLE''
     then None
     else
      (let w = resolved_width n;
           h = resolved_height n;
           textCount = childTextCount n;
           iconCount = childIconLikeCount n;
           hasFill = hasAnySolidFill n;
           stroke = hasStroke n;
           lname = toLowerCase (str_or (name (attrs n)) '''')
       in
       if str_includes lname ''button'' \<or> str_includes lname ''btn'' then Some Button
       else if str_includes lname ''input'' \<or> str_includes lname ''textfield'' \<or>
               str_includes lname ''text field'' then Some Input
       else if str_includes lname ''card'' then Some Card
       else if hasFill \<and> textCount \<ge> 1 \<and>
               (case h of None \<Rightarrow> False | Some hv \<Rightarrow> hv \<ge> 28 \<and> hv \<le> 64) then Some Button
       else if (stroke \<or> hasFill) \<and>
               (case w of None \<Rightarrow> False | Some wv \<Rightarrow> wv \<ge> 200) \<and>
               (case h of None \<Rightarrow> False | Some hv \<Rightarrow> hv \<ge> 34 \<and> hv \<le> 72) \<and>
               textCount \<le> 1 \<and> iconCount \<le> 2 then Some Input
       else if hasFill \<and>
               (case w of None \<Rightarrow> False | Some wv \<Rightarrow>
                 (case h of None \<Rightarrow> False | Some hv \<Rightarrow>
                    wv \<ge> 200 \<and> hv \<ge> 120 \<and> length (kids n) \<ge> 2)) then Some Card
       else None))"

section \<open>Colours\<close>

text \<open>
  A JavaScript number is an IEEE 754 double, modelled by the real number it stands for.
  The product \<open>x * 255\<close> of the source is the exact product rounded to the nearest double,
  a tie to the double with the even significand: \<open>to_double\<close>. A double has a
  significand of 53 bits, so a number \<open>p\<close> with \<open>2^e \<le> p < 2^(e+1)\<close> is rounded to a
  multiple of \<open>2^(e-52)\<close>; below \<open>2^(-1022)\<close> the doubles are the multiples of
  \<open>2^(-1074)\<close>. A product beyond the largest double (an overflow to \<open>Infinity\<close>) is
  outside the model.
\<close>

definition pow2 :: "int \<Rightarrow> real" where
  "pow2 k = (if 0 \<le> k then 2 ^ nat k else 1 / 2 ^ nat (- k))"

text \<open>Rounding to the nearest integer, a half to the even one.\<close>

definition round_even :: "real \<Rightarrow> int" where
  "round_even x =
     (let f = \<lfloor>x\<rfloor> in
      if x - of_int f < 1 / 2 then f
      else if 1 / 2 < x - of_int f then f + 1
      else if even f then f else f + 1)"

text \<open>The binary exponent \<open>e\<close> of a positive number \<open>p\<close>: \<open>2^e \<le> p < 2^(e+1)\<close>.\<close>

definition expo :: "real \<Rightarrow> int" where
  "expo p = (if 1 \<le> p then bitlen \<lfloor>p\<rfloor> - 1 else - bitlen (\<lceil>1 / p\<rceil> - 1))"

definition to_double :: "real \<Rightarrow> real" where
  "to_double p =
     (if p = 0 then 0
      else (let k = max (expo \<bar>p\<bar>) (- 1022) - 52
            in sgn p * (of_int (round_even (\<bar>p\<bar> / pow2 k)) * pow2 k)))"

text \<open>The operator \<open>*\<close> of the source on two numbers.\<close>

definition js_times :: "real \<Rightarrow> real \<Rightarrow> real" where
  "js_times a b = to_double (a * b)"

text \<open>
  \<open>Math.round\<close> gives the integer nearest to its argument, a half towards plus infinity;
  it is exact on the value of a double.
  \<open>toHex\<close> is \<open>n.toString(16).padStart(2, "0").toUpperCase()\<close> on an integer.
\<close>

definition Math_round :: "real \<Rightarrow> int" where
  "Math_round v = \<lfloor>v + 1 / 2\<rfloor>"

definition hexDigit :: "nat \<Rightarrow> char" where
  "hexDigit d = ''0123456789abcdef'' ! d"

fun digits16 :: "nat \<Rightarrow> string" where
  "digits16 v = (if v < 16 then [hexDigit v] else digits16 (v div 16) @ [hexDigit (v mod 16)])"

declare digits16.simps [simp del]

definition toString16 :: "int \<Rightarrow> string" where
  "toString16 v = (if v < 0 then CHR ''-'' # digits16 (nat (- v)) else digits16 (nat v))"

definition padStart :: "nat \<Rightarrow> char \<Rightarrow> string \<Rightarrow> string" where
  "padStart k c s = replicate (k - length s) c @ s"

definition toUpperChar :: "char \<Rightarrow> char" where
  "toUpperChar c = (if CHR ''a'' \<le> c \<and> c \<le> CHR ''z''
     then (case c of Char b0 b1 b2 b3 b4 b5 b6 b7 \<Rightarrow> Char b0 b1 b2 b3 b4 False b6 b7)
     else c)"

definition toUpperCase :: "string \<Rightarrow> string" where
  "toUpperCase s = map toUpperChar s"

definition toHex :: "int \<Rightarrow> string" where
  "toHex v = toUpperCase (padStart 2 (CHR ''0'') (toString16 v))"

record hex_result =
  rgb :: string
  rgba :: string
  alpha255 :: int

text \<open>\<open>rgbaToHex\<close> of the palette analyser; the second parameter has the default 1.\<close>

definition rgbaToHex :: "color option \<Rightarrow> real option \<Rightarrow> hex_result" where
  "rgbaToHex col op =
     (let rv = Math_round (js_times (case col of None \<Rightarrow> 0 | Some (RGB cr cg cb) \<Rightarrow> cr) 255);
          gv = Math_round (js_times (case col of None \<Rightarrow> 0 | Some (RGB cr cg cb) \<Rightarrow> cg) 255);
          bv = Math_round (js_times (case col of None \<Rightarrow> 0 | Some (RGB cr cg cb) \<Rightarrow> cb) 255);
          av = Math_round (js_times (case op of None \<Rightarrow> 1 | Some v \<Rightarrow> v) 255);
          rgbv = ''#'' @ toHex rv @ toHex gv @ toHex bv
      in \<lparr> rgb = rgbv, rgba = (if av < 255 then rgbv @ toHex av else rgbv), alpha255 = av \<rparr>)"

text \<open>The variant of the two inspectors: a string, \<open>undefined\<close> without a colour.\<close>

definition rgbaToHex_str :: "color option \<Rightarrow> real option \<Rightarrow> string option" where
  "rgbaToHex_str col op =
     (case col of
        None \<Rightarrow> None
      | Some (RGB cr cg cb) \<Rightarrow>
          (let rv = Math_round (js_times cr 255);
               gv = Math_round (js_times cg 255);
               bv = Math_round (js_times cb 255);
               av = Math_round (js_times (case op of None \<Rightarrow> 1 | Some v \<Rightarrow> v) 255);
               rgbv = ''#'' @ toHex rv @ toHex gv @ toHex bv
           in Some (if av < 255 then rgbv @ toHex av else rgbv)))"

text \<open>The opacity handed to \<open>rgbaToHex\<close>: \<open>paint.opacity ?? n?.opacity ?? 1\<close>.\<close>

definition effectiveOpacity :: "paint \<Rightarrow> node \<Rightarrow> real" where
  "effectiveOpacity p n =
     (case popacity p of
        Some v \<Rightarrow> v
      | None \<Rightarrow> (case opacity (attrs n) of Some v \<Rightarrow> v | None \<Rightarrow> 1))"

section \<open>Traversal without parents, insertion-ordered maps, sorting\<close>

fun traverse :: "(node \<Rightarrow> 's \<Rightarrow> 's) \<Rightarrow> node \<Rightarrow> 's \<Rightarrow> 's" where
  "traverse visit (Node a ks) s = fold (traverse visit) ks (visit (Node a ks) s)"

text \<open>
  A JavaScript \<open>Map\<close> with string keys, as the list of its entries in insertion order:
  \<open>set\<close> on a key of the map keeps the place of the entry, on a new key it appends.
\<close>

fun map_set :: "(string \<times> 'v) list \<Rightarrow> string \<Rightarrow> 'v \<Rightarrow> (string \<times> 'v) list" where
  "map_set [] k v = [(k, v)]"
| "map_set ((k', v') # m) k v = (if k' = k then (k, v) # m else (k', v') # map_set m k v)"

definition bump :: "(string \<times> nat) list \<Rightarrow> string \<Rightarrow> (string \<times> nat) list" where
  "bump m k = map_set m k ((case map_of m k of None \<Rightarrow> 0 | Some c \<Rightarrow> c) + 1)"

text \<open>
  \<open>Array.prototype.sort\<close> with a comparison function is a stable sort; it is modelled by
  the stable insertion sort, which every stable sort agrees with when the comparison
  function is consistent.
\<close>

fun insert_cmp :: "('a \<Rightarrow> 'a \<Rightarrow> int) \<Rightarrow> 'a \<Rightarrow> 'a list \<Rightarrow> 'a list" where
  "insert_cmp cmp x [] = [x]"
| "insert_cmp cmp x (y # ys) = (if cmp x y \<le> 0 then x # y # ys else y # insert_cmp cmp x ys)"

definition array_sort :: "('a \<Rightarrow> 'a \<Rightarrow> int) \<Rightarrow> 'a list \<Rightarrow> 'a list" where
  "array_sort cmp xs = foldr (insert_cmp cmp) xs []"

section \<open>The palette\<close>

text \<open>The body of the loop over the fills of a node in the palette visitor.\<close>

definition paint_step :: "node \<Rightarrow> paint \<Rightarrow> (string \<times> nat) list \<Rightarrow> (string \<times> nat) list" where
  "paint_step n p m =
     (if visible p = Some False then m
      else if ptype p \<noteq> Some ''SOLID'' \<or> color p = None then m
      else bump m (rgba (rgbaToHex (color p) (Some (effectiveOpacity p n)))))"

definition palette_visit :: "node \<Rightarrow> (string \<times> nat) list \<Rightarrow> (string \<times> nat) list" where
  "palette_visit n m = fold (paint_step n) (fills (attrs n)) m"

definition palette :: "node \<Rightarrow> (string \<times> nat) list" where
  "palette doc =
     take 50 (array_sort (\<lambda>a b. int (snd b) - int (snd a)) (traverse palette_visit doc []))"

section \<open>The component-usage report\<close>

record meta =
  meta_key :: "string option"
  meta_name :: "string option"
  meta_description :: "string option"
  meta_componentSetId :: "string option"

type_synonym dict = "string \<Rightarrow> meta option"

record figma_file =
  file_name :: "string option"
  document :: node
  components :: "(string \<times> meta) list"

text \<open>\<open>componentById\<close>: the \<open>Map\<close> filled from the entries of \<open>file.components\<close>.\<close>

definition componentById_of :: "figma_file \<Rightarrow> dict" where
  "componentById_of file = map_of (components file)"

definition fileName_of :: "figma_file \<Rightarrow> string" where
  "fileName_of file = (case file_name file of None \<Rightarrow> ''-'' | Some s \<Rightarrow> s)"

definition count_instance :: "node \<Rightarrow> (string \<times> nat) list \<Rightarrow> (string \<times> nat) list" where
  "count_instance n counts =
     (if type (attrs n) = Some ''INSTANCE'' then
        (case componentId (attrs n) of None \<Rightarrow> counts | Some cid \<Rightarrow> bump counts cid)
      else counts)"

record usage =
  used_componentId :: string
  used_name :: string
  used_key :: "string option"
  used_count :: nat

definition to_usage :: "dict \<Rightarrow> string \<times> nat \<Rightarrow> usage" where
  "to_usage componentById e =
     \<lparr> used_componentId = fst e,
       used_name = (case Option.bind (componentById (fst e)) meta_name of
                      None \<Rightarrow> ''(unknown component)'' | Some s \<Rightarrow> s),
       used_key = Option.bind (componentById (fst e)) meta_key,
       used_count = snd e \<rparr>"

text \<open>
  The comparison function \<open>b.count - a.count || a.name.localeCompare(b.name)\<close>.
  \<open>localeCompare\<close> is the collation of the host, a parameter here.
\<close>

definition usage_cmp :: "(string \<Rightarrow> string \<Rightarrow> int) \<Rightarrow> usage \<Rightarrow> usage \<Rightarrow> int" where
  "usage_cmp localeCompare a b =
     (if int (used_count b) - int (used_count a) \<noteq> 0
      then int (used_count b) - int (used_count a)
      else localeCompare (used_name a) (used_name b))"

definition componentsUsed :: "(string \<Rightarrow> string \<Rightarrow> int) \<Rightarrow> dict \<Rightarrow> node \<Rightarrow> usage list" where
  "componentsUsed localeCompare componentById page =
     array_sort (usage_cmp localeCompare)
       (map (to_usage componentById) (traverse count_instance page []))"

record usage_page =
  up_pageName :: string
  up_componentsUsed :: "usage list"

record component_entry =
  ce_nodeId :: string
  ce_key :: "string option"
  ce_name :: "string option"
  ce_description :: "string option"
  ce_componentSetId :: "string option"

record usage_report =
  ur_fileName :: string
  ur_fileKey :: string
  ur_pages :: "usage_page list"
  ur_allComponents :: "component_entry list"

definition analyze_components ::
  "(string \<Rightarrow> string \<Rightarrow> int) \<Rightarrow> string \<Rightarrow> figma_file \<Rightarrow> usage_report" where
  "analyze_components localeCompare fkey file =
     \<lparr> ur_fileName = fileName_of file,
       ur_fileKey = fkey,
       ur_pages = map (\<lambda>page.
           \<lparr> up_pageName = str_or (name (attrs page)) ''(isimsiz sayfa)'',
             up_componentsUsed = componentsUsed localeCompare (componentById_of file) page \<rparr>)
         (kids (document file)),
       ur_allComponents = map (\<lambda>e.
           \<lparr> ce_nodeId = fst e, ce_key = meta_key (snd e), ce_name = meta_name (snd e),
             ce_description = meta_description (snd e),
             ce_componentSetId = meta_componentSetId (snd e) \<rparr>)
         (components file) \<rparr>"

section \<open>The inventory report\<close>

text \<open>
  The inventory counts the instances of the whole document with the visitor of the usage
  report and gives every component of the dictionary its count, 0 without an entry.
\<close>

definition instanceCountByComponentId :: "figma_file \<Rightarrow> (string \<times> nat) list" where
  "instanceCountByComponentId file = traverse count_instance (document file) []"

definition inventory_instanceCounts :: "figma_file \<Rightarrow> (string \<times> nat) list" where
  "inventory_instanceCounts file =
     map (\<lambda>e. (fst e, (case map_of (instanceCountByComponentId file) (fst e) of
                          None \<Rightarrow> 0 | Some c \<Rightarrow> c)))
       (components file)"

section \<open>The store: parent back-references\<close>

text \<open>
  The analysers that build paths write a field \<open>__parent\<close> on the node objects they visit.
  The document is parsed JSON, a tree without sharing, so a node object is identified by
  its address: the list of child indices that leads to it from \<open>file.document\<close> (the
  page with index \<open>i\<close> is \<open>[i]\<close>). The store maps the address of an object to the value
  of its \<open>__parent\<close> field: no entry when the object has no such field, \<open>Undefined\<close>
  or a reference to an object otherwise. No other field is ever assigned in the source.
\<close>

type_synonym ref = "nat list"

datatype pval = Undefined | Ref ref

type_synonym pheap = "ref \<Rightarrow> pval option"

fun node_at :: "node \<Rightarrow> ref \<Rightarrow> node option" where
  "node_at n [] = Some n"
| "node_at n (i # r) = (if i < length (kids n) then node_at (kids n ! i) r else None)"

text \<open>Reading \<open>cur.__parent\<close>: a missing property reads as \<open>undefined\<close>.\<close>

definition read_parent :: "pheap \<Rightarrow> ref \<Rightarrow> pval" where
  "read_parent hp r = (case hp r of None \<Rightarrow> Undefined | Some v \<Rightarrow> v)"

text \<open>
  The statements \<open>while (cur && cur !== page) { ...; cur = cur.__parent; }\<close> of the source, with
  the rest of the body as the parameter \<open>body\<close>. Nothing in such a loop bounds the number
  of rounds, so it is a partial function; \<open>None\<close> is a loop that does not end.
\<close>

partial_function (option) parent_loop ::
  "(ref \<Rightarrow> 'a \<Rightarrow> 'a) \<Rightarrow> pheap \<Rightarrow> ref \<Rightarrow> pval \<Rightarrow> 'a \<Rightarrow> 'a option" where
  "parent_loop body hp page cur acc =
     (case cur of
        Undefined \<Rightarrow> Some acc
      | Ref r \<Rightarrow>
          if r = page then Some acc
          else parent_loop body hp page (read_parent hp r) (body r acc))"

text \<open>
  \<open>traverse(node, visit, parent)\<close>: the visitor on the node, then the children in order,
  each with the node as its parent. \<open>r\<close> is the address of the node.
\<close>

fun traverse_p ::
    "(node \<Rightarrow> ref \<Rightarrow> pval \<Rightarrow> 's \<Rightarrow> 's option) \<Rightarrow> node \<Rightarrow> ref \<Rightarrow> pval \<Rightarrow> 's \<Rightarrow> 's option"
  and traverse_kids ::
    "(node \<Rightarrow> ref \<Rightarrow> pval \<Rightarrow> 's \<Rightarrow> 's option) \<Rightarrow> node list \<Rightarrow> ref \<Rightarrow> nat \<Rightarrow> 's \<Rightarrow> 's option"
  where
  "traverse_p visit (Node a ks) r parent s =
     (case visit (Node a ks) r parent s of
        None \<Rightarrow> None
      | Some s1 \<Rightarrow> traverse_kids visit ks r 0 s1)"
| "traverse_kids visit [] r i s = Some s"
| "traverse_kids visit (k # ks) r i s =
     (case traverse_p visit k (r @ [i]) (Ref r) s of
        None \<Rightarrow> None
      | Some s1 \<Rightarrow> traverse_kids visit ks r (Suc i) s1)"

fun join :: "string \<Rightarrow> string list \<Rightarrow> string" where
  "join sep [] = []"
| "join sep [p] = p"
| "join sep (p # q # ps) = p @ sep @ join sep (q # ps)"

text \<open>The name and the identifier of the object at an address.\<close>

definition name_at :: "node \<Rightarrow> ref \<Rightarrow> string option" where
  "name_at doc r = Option.bind (node_at doc r) (\<lambda>c. name (attrs c))"

definition id_at :: "node \<Rightarrow> ref \<Rightarrow> string option" where
  "id_at doc r = Option.bind (node_at doc r) (\<lambda>c. node_id (attrs c))"

definition type_at :: "node \<Rightarrow> ref \<Rightarrow> string option" where
  "type_at doc r = Option.bind (node_at doc r) (\<lambda>c. type (attrs c))"

text \<open>
  A generic loop \<open>for (const page of pagesNodes)\<close>: \<open>i\<close> is the index of the next page,
  whose address is \<open>[i]\<close>.
\<close>

fun for_pages :: "(nat \<Rightarrow> node \<Rightarrow> 's \<Rightarrow> 's option) \<Rightarrow> node list \<Rightarrow> nat \<Rightarrow> 's \<Rightarrow> 's option" where
  "for_pages step [] i s = Some s"
| "for_pages step (page # rest) i s =
     (case step i page s of None \<Rightarrow> None | Some s1 \<Rightarrow> for_pages step rest (Suc i) s1)"

section \<open>The UI classification report\<close>

record item =
  item_name :: string
  item_path :: string

text \<open>The three arrays \<open>buttons\<close>, \<open>inputs\<close> and \<open>cards\<close> of a page.\<close>

record ui_lists =
  buttons :: "item list"
  inputs :: "item list"
  cards :: "item list"

text \<open>\<open>makePath\<close> of the classification report: empty names are left out.\<close>

definition path_part :: "node \<Rightarrow> ref \<Rightarrow> string list \<Rightarrow> string list" where
  "path_part doc c parts =
     (let nm = str_or (name_at doc c) (str_or (id_at doc c) '''')
      in if nm \<noteq> [] then parts @ [nm] else parts)"

definition makePath :: "node \<Rightarrow> pheap \<Rightarrow> ref \<Rightarrow> string \<Rightarrow> ref \<Rightarrow> string option" where
  "makePath doc hp page pgName r =
     (case parent_loop (path_part doc) hp page (Ref r) [] of
        None \<Rightarrow> None
      | Some parts \<Rightarrow> Some (join '' / '' (rev (parts @ [pgName]))))"

text \<open>The name an instance is judged by: \<open>meta?.name || n?.name || ""\<close>.\<close>

definition instance_name :: "dict \<Rightarrow> node \<Rightarrow> string" where
  "instance_name componentById n =
     str_or (Option.bind (Option.bind (componentId (attrs n)) componentById) meta_name)
       (str_or (name (attrs n)) '''')"

text \<open>The category of an instance, from the name \<open>nm\<close> of its component (the nested conditional).\<close>

definition instanceCat :: "string \<Rightarrow> kind option" where
  "instanceCat nm =
     (if isUiComponentName nm then
        (if str_includes (toLowerCase nm) ''button'' \<or> str_includes (toLowerCase nm) ''btn''
         then Some Button
         else if str_includes (toLowerCase nm) ''card'' then Some Card
         else if str_includes (toLowerCase nm) ''input'' \<or>
                 str_includes (toLowerCase nm) ''text field'' \<or>
                 str_includes (toLowerCase nm) ''textfield'' then Some Input
         else None)
      else None)"

definition push_item :: "kind option \<Rightarrow> item \<Rightarrow> ui_lists \<Rightarrow> ui_lists" where
  "push_item cat it ls =
     (case cat of
        Some Button \<Rightarrow> ls\<lparr>buttons := buttons ls @ [it]\<rparr>
      | Some Input \<Rightarrow> ls\<lparr>inputs := inputs ls @ [it]\<rparr>
      | Some Card \<Rightarrow> ls\<lparr>cards := cards ls @ [it]\<rparr>
      | None \<Rightarrow> ls)"

text \<open>
  The state of the visitor is the three lists and the store. The end of the visitor is
  the structural classification fallback.
\<close>

definition visit_structural ::
  "node \<Rightarrow> ref \<Rightarrow> string \<Rightarrow> node \<Rightarrow> ref \<Rightarrow> ui_lists \<times> pheap \<Rightarrow> (ui_lists \<times> pheap) option" where
  "visit_structural doc page pgName n r s =
     (case classifyStructuralUi n of
        None \<Rightarrow> Some s
      | Some k \<Rightarrow>
          (case makePath doc (snd s) page pgName r of
             None \<Rightarrow> None
           | Some path \<Rightarrow>
               Some (push_item (Some k)
                 \<lparr>item_name = str_or (name (attrs n)) (kind_str k), item_path = path\<rparr> (fst s),
                 snd s)))"

text \<open>
  The visitor of the classification report. \<open>n\<close> is the visited object, \<open>r\<close> its address,
  \<open>parent\<close> the second argument of the callback.
\<close>

definition visit_ui ::
  "dict \<Rightarrow> node \<Rightarrow> ref \<Rightarrow> string \<Rightarrow> node \<Rightarrow> ref \<Rightarrow> pval \<Rightarrow> ui_lists \<times> pheap
     \<Rightarrow> (ui_lists \<times> pheap) option" where
  "visit_ui componentById doc page pgName n r parent s0 =
     (let s = (fst s0, (snd s0)(r \<mapsto> parent)) in
      if type (attrs n) = Some ''INSTANCE'' \<and> componentId (attrs n) \<noteq> None then
        (let nm = instance_name componentById n
         in if nm = [] then Some s
            else if isIconComponentName nm then Some s
            else if isUiComponentName nm then
              (case makePath doc (snd s) page pgName r of
                 None \<Rightarrow> None
               | Some path \<Rightarrow>
                   Some (push_item (instanceCat nm) \<lparr>item_name = nm, item_path = path\<rparr> (fst s),
                         snd s))
            else visit_structural doc page pgName n r s)
      else visit_structural doc page pgName n r s)"

record page_report =
  pageName :: string
  ui :: ui_lists

record ui_report =
  fileName :: string
  fileKey :: string
  pages :: "page_report list"

definition no_items :: ui_lists where
  "no_items = \<lparr>buttons = [], inputs = [], cards = []\<rparr>"

text \<open>
  One round of the loop over the pages in \<open>main\<close>: the state is \<open>result.pages\<close> and the
  store. The three lists start empty on every page.
\<close>

definition ui_page_step ::
  "dict \<Rightarrow> node \<Rightarrow> nat \<Rightarrow> node \<Rightarrow> page_report list \<times> pheap
     \<Rightarrow> (page_report list \<times> pheap) option" where
  "ui_page_step componentById doc i page s =
     (let pn = str_or (name (attrs page)) ''(isimsiz sayfa)'' in
      case traverse_p (visit_ui componentById doc [i] pn) page [i] Undefined
             (no_items, snd s) of
        None \<Rightarrow> None
      | Some st \<Rightarrow> Some (fst s @ [\<lparr>pageName = pn, ui = fst st\<rparr>], snd st))"

definition analyze_ui_components ::
  "string \<Rightarrow> figma_file \<Rightarrow> pheap \<Rightarrow> (ui_report \<times> pheap) option" where
  "analyze_ui_components fkey file hp =
     (case for_pages (ui_page_step (componentById_of file) (document file))
             (kids (document file)) 0 ([], hp) of
        None \<Rightarrow> None
      | Some s \<Rightarrow>
          Some (\<lparr>fileName = fileName_of file, fileKey = fkey, pages = fst s\<rparr>, snd s))"

section \<open>The button inspector\<close>

definition isButtonName :: "string \<Rightarrow> bool" where
  "isButtonName nm =
     (str_includes (toLowerCase nm) ''button'' \<or> str_includes (toLowerCase nm) ''btn'' \<or>
      toLowerCase nm = ''defaultbutton'')"

record size_info =
  si_width :: real
  si_height :: real

record stroke_info =
  si_strokeWeight :: "real option"

definition node_size :: "node \<Rightarrow> size_info option" where
  "node_size n =
     (case resolved_width n of
        None \<Rightarrow> None
      | Some w \<Rightarrow>
          (case resolved_height n of
             None \<Rightarrow> None
           | Some h \<Rightarrow> Some \<lparr>si_width = w, si_height = h\<rparr>))"

definition solidHexes :: "node \<Rightarrow> string list" where
  "solidHexes n =
     fold (\<lambda>p acc.
        if ptype p = Some ''SOLID'' \<and> visible p \<noteq> Some False \<and> color p \<noteq> None then
          (case rgbaToHex_str (color p) (Some (effectiveOpacity p n)) of
             None \<Rightarrow> acc
           | Some hex \<Rightarrow> acc @ [hex])
        else acc)
       (fills (attrs n)) []"

definition stroke_of :: "node \<Rightarrow> stroke_info option" where
  "stroke_of n =
     (if hasStroke n then Some \<lparr>si_strokeWeight = strokeWeight (attrs n)\<rparr> else None)"

definition textChildren :: "node \<Rightarrow> string list" where
  "textChildren n =
     fold (\<lambda>ch acc.
        if type (attrs ch) = Some ''TEXT'' then
          (case characters (attrs ch) of None \<Rightarrow> acc | Some s \<Rightarrow> acc @ [s])
        else acc)
       (kids n) []"

record button_info =
  bi_name :: string
  bi_size :: "size_info option"
  bi_fills :: "string list"
  bi_cornerRadius :: "real option"
  bi_rectangleCornerRadii :: "real list option"
  bi_stroke :: "stroke_info option"
  bi_hasText :: bool
  bi_samples :: "string list"

definition extractButtonInfo :: "node \<Rightarrow> button_info" where
  "extractButtonInfo n =
     \<lparr> bi_name = str_or (name (attrs n)) ''(button)'',
       bi_size = node_size n,
       bi_fills = solidHexes n,
       bi_cornerRadius = cornerRadius (attrs n),
       bi_rectangleCornerRadii = rectangleCornerRadii (attrs n),
       bi_stroke = stroke_of n,
       bi_hasText = (length (textChildren n) > 0),
       bi_samples = take 3 (textChildren n) \<rparr>"

text \<open>\<open>makePath\<close> of the two inspectors: every name is pushed, empty or not.\<close>

definition inspect_part :: "node \<Rightarrow> ref \<Rightarrow> string list \<Rightarrow> string list" where
  "inspect_part doc c parts = parts @ [str_or (name_at doc c) (str_or (id_at doc c) '''')]"

definition makePath_inspect :: "node \<Rightarrow> pheap \<Rightarrow> ref \<Rightarrow> string \<Rightarrow> ref \<Rightarrow> string option" where
  "makePath_inspect doc hp page pgName r =
     (case parent_loop (inspect_part doc) hp page (Ref r) [] of
        None \<Rightarrow> None
      | Some parts \<Rightarrow> Some (join '' / '' (rev (parts @ [pgName]))))"

record button_entry =
  be_page :: string
  be_path :: string
  be_info :: button_info

definition visit_button ::
  "node \<Rightarrow> ref \<Rightarrow> string \<Rightarrow> node \<Rightarrow> ref \<Rightarrow> pval \<Rightarrow> button_entry list \<times> pheap
     \<Rightarrow> (button_entry list \<times> pheap) option" where
  "visit_button doc page pgName n r parent s0 =
     (let hp = (snd s0)(r \<mapsto> parent);
          nm = str_or (name (attrs n)) ''''
      in if nm = [] then Some (fst s0, hp)
         else if \<not> isButtonName nm then Some (fst s0, hp)
         else
           (case makePath_inspect doc hp page pgName r of
              None \<Rightarrow> None
            | Some path \<Rightarrow>
                Some (fst s0 @ [\<lparr>be_page = pgName, be_path = path,
                                  be_info = extractButtonInfo n\<rparr>], hp)))"

text \<open>The page name of the inspectors: \<open>page?.name ?? "(page)"\<close>.\<close>

definition inspect_pageName :: "node \<Rightarrow> string" where
  "inspect_pageName page = (case name (attrs page) of None \<Rightarrow> ''(page)'' | Some s \<Rightarrow> s)"

record buttons_report =
  br_fileName :: string
  br_fileKey :: string
  br_buttons :: "button_entry list"

definition inspect_buttons ::
  "string \<Rightarrow> figma_file \<Rightarrow> pheap \<Rightarrow> (buttons_report \<times> pheap) option" where
  "inspect_buttons fkey file hp =
     (case for_pages (\<lambda>i page. traverse_p
               (visit_button (document file) [i] (inspect_pageName page)) page [i] Undefined)
             (kids (document file)) 0 ([], hp) of
        None \<Rightarrow> None
      | Some s \<Rightarrow>
          Some (\<lparr>br_fileName = fileName_of file, br_fileKey = fkey, br_buttons = fst s\<rparr>, snd s))"

section \<open>The card inspector\<close>

definition isIconName :: "string \<Rightarrow> bool" where
  "isIconName nm = list_ex (\<lambda>h. str_includes (toLowerCase nm) h) iconHints"

definition classifyAsCard :: "node \<Rightarrow> bool" where
  "classifyAsCard n =
     (let ty = type (attrs n) in
      if ty \<noteq> Some ''FRAME'' \<and> ty \<noteq> Some ''GROUP'' \<and> ty \<noteq> Some ''COMPONENT'' \<and>
         ty \<noteq> Some ''INSTANCE'' \<and> ty \<noteq> Some ''RECTANGLE''
      then False
      else
        (let hasSolidFill = list_ex (\<lambda>p. ptype p = Some ''SOLID'' \<and> visible p \<noteq> Some False)
                              (fills (attrs n));
             nm = (case name (attrs n) of None \<Rightarrow> [] | Some s \<Rightarrow> s)
         in if str_includes (toLowerCase nm) ''card'' then True
            else
              (case resolved_width n of
                 None \<Rightarrow> False
               | Some w \<Rightarrow>
                   (case resolved_height n of
                      None \<Rightarrow> False
                    | Some h \<Rightarrow>
                        w \<ge> 200 \<and> h \<ge> 120 \<and> (hasSolidFill \<or> hasStroke n) \<and>
                        length (kids n) \<ge> 2))))"

record card_content =
  cc_textCount :: nat
  cc_textSamples :: "string list"
  cc_imageFillCount :: nat
  cc_iconCount :: nat
  cc_instanceCount :: nat

text \<open>One round of the loop over the children in \<open>extractCardInfo\<close>.\<close>

definition card_child_step :: "node \<Rightarrow> card_content \<Rightarrow> card_content" where
  "card_child_step ch c0 =
     (let c1 = (if type (attrs ch) = Some ''TEXT'' \<and> characters (attrs ch) \<noteq> None then
                  c0\<lparr>cc_textCount := cc_textCount c0 + 1,
                     cc_textSamples :=
                       (if length (cc_textSamples c0) < 3
                        then cc_textSamples c0 @
                               (case characters (attrs ch) of None \<Rightarrow> [] | Some s \<Rightarrow> [s])
                        else cc_textSamples c0)\<rparr>
                else c0);
          c2 = (if type (attrs ch) = Some ''INSTANCE'' then
                  c1\<lparr>cc_instanceCount := cc_instanceCount c1 + 1,
                     cc_iconCount :=
                       (if isIconName (case name (attrs ch) of None \<Rightarrow> [] | Some s \<Rightarrow> s)
                        then cc_iconCount c1 + 1 else cc_iconCount c1)\<rparr>
                else c1)
      in c2\<lparr>cc_imageFillCount :=
              fold (\<lambda>cp k. if ptype cp = Some ''IMAGE'' \<and> visible cp \<noteq> Some False
                            then k + 1 else k)
                (fills (attrs ch)) (cc_imageFillCount c2)\<rparr>)"

record card_info =
  ci_name :: string
  ci_size :: "size_info option"
  ci_fills :: "string list"
  ci_cornerRadius :: "real option"
  ci_rectangleCornerRadii :: "real list option"
  ci_stroke :: "stroke_info option"
  ci_content :: card_content

definition extractCardInfo :: "node \<Rightarrow> card_info" where
  "extractCardInfo n =
     \<lparr> ci_name = (case name (attrs n) of None \<Rightarrow> ''(card)'' | Some s \<Rightarrow> s),
       ci_size = node_size n,
       ci_fills = solidHexes n,
       ci_cornerRadius = cornerRadius (attrs n),
       ci_rectangleCornerRadii = rectangleCornerRadii (attrs n),
       ci_stroke = stroke_of n,
       ci_content = fold card_child_step (kids n)
          \<lparr>cc_textCount = 0, cc_textSamples = [], cc_imageFillCount = 0,
           cc_iconCount = 0, cc_instanceCount = 0\<rparr> \<rparr>"

text \<open>
  The roles of \<open>inferRole\<close>. The source returns Turkish labels: home-page card, calendar
  card, login card, registration card, closet card, verification card, general card.
\<close>

datatype role = HomeCard | CalendarCard | LoginCard | RegisterCard | ClosetCard
  | VerificationCard | GeneralCard

definition inferRole :: "string \<Rightarrow> string \<Rightarrow> role" where
  "inferRole viewName cardName =
     (let v = toLowerCase viewName; c = toLowerCase cardName in
      if str_includes v ''home'' then HomeCard
      else if str_includes v ''calendar'' \<or> str_includes c ''calendar'' then CalendarCard
      else if str_includes v ''login'' \<or> str_includes c ''login'' then LoginCard
      else if str_includes v ''register'' \<or> str_includes c ''register'' then RegisterCard
      else if str_includes v ''closet'' \<or> str_includes c ''closet'' then ClosetCard
      else if str_includes v ''verification'' \<or> str_includes c ''verification'' \<or>
              str_includes c ''sms'' then VerificationCard
      else GeneralCard)"

record card_entry =
  ce_page :: string
  ce_view :: string
  ce_path :: string
  ce_info :: card_info
  ce_role :: role

text \<open>The body of the loop that looks for the enclosing top-level frame.\<close>

definition topFrame_step :: "node \<Rightarrow> ref \<Rightarrow> string \<Rightarrow> string" where
  "topFrame_step doc c topFrameName =
     (if type_at doc c = Some ''FRAME''
      then (case name_at doc c of None \<Rightarrow> topFrameName | Some s \<Rightarrow> s)
      else topFrameName)"

definition visit_card ::
  "node \<Rightarrow> ref \<Rightarrow> string \<Rightarrow> node \<Rightarrow> ref \<Rightarrow> pval \<Rightarrow> card_entry list \<times> pheap
     \<Rightarrow> (card_entry list \<times> pheap) option" where
  "visit_card doc page pgName n r parent s0 =
     (let hp = (snd s0)(r \<mapsto> parent)
      in if \<not> classifyAsCard n then Some (fst s0, hp)
         else
           (case parent_loop (topFrame_step doc) hp page (Ref r) pgName of
              None \<Rightarrow> None
            | Some topFrameName \<Rightarrow>
                (case makePath_inspect doc hp page pgName r of
                   None \<Rightarrow> None
                 | Some path \<Rightarrow>
                     Some (fst s0 @
                        [\<lparr>ce_page = pgName, ce_view = topFrameName, ce_path = path,
                          ce_info = extractCardInfo n,
                          ce_role = inferRole topFrameName (ci_name (extractCardInfo n))\<rparr>],
                        hp))))"

record cards_report =
  cr_fileName :: string
  cr_fileKey :: string
  cr_cards :: "card_entry list"

definition inspect_cards ::
  "string \<Rightarrow> figma_file \<Rightarrow> pheap \<Rightarrow> (cards_report \<times> pheap) option" where
  "inspect_cards fkey file hp =
     (case for_pages (\<lambda>i page. traverse_p
               (visit_card (document file) [i] (inspect_pageName page)) page [i] Undefined)
             (kids (document file)) 0 ([], hp) of
        None \<Rightarrow> None
      | Some s \<Rightarrow>
          Some (\<lparr>cr_fileName = fileName_of file, cr_fileKey = fkey, cr_cards = fst s\<rparr>, snd s))"

section \<open>Stores that are linked above an address\<close>

text \<open>
  \<open>linked hp page r\<close>: \<open>r\<close> lies in the page and every object from \<open>r\<close> up to the child
  of the page carries its real parent in \<open>__parent\<close>. \<open>in_pages doc a\<close>: \<open>a\<close> is
  the address of a page or of a node of a page. \<open>written a\<close> is the value that a traversal
  of the pages gives to the \<open>__parent\<close> field of the object at \<open>a\<close>.
\<close>

definition linked :: "pheap \<Rightarrow> ref \<Rightarrow> ref \<Rightarrow> bool" where
  "linked hp page r =
     (take (length page) r = page \<and>
      (\<forall>k. length page < k \<and> k \<le> length r \<longrightarrow> hp (take k r) = Some (Ref (take (k - 1) r))))"

definition in_pages :: "node \<Rightarrow> ref \<Rightarrow> bool" where
  "in_pages doc a = (a \<noteq> [] \<and> node_at doc a \<noteq> None)"

definition written :: "ref \<Rightarrow> pval" where
  "written a = (if length a \<le> 1 then Undefined else Ref (butlast a))"

text \<open>
  The addresses from \<open>r\<close> up to the child of the page, in the order in which a loop over
  \<open>__parent\<close> meets them on a linked store, and the addresses of the nodes of the subtree
  \<open>n\<close> that sits at the address \<open>r\<close>.
\<close>

definition chain_refs :: "ref \<Rightarrow> ref \<Rightarrow> ref list" where
  "chain_refs page r = map (\<lambda>k. take k r) (rev [Suc (length page) ..< Suc (length r)])"

definition in_subtree :: "node \<Rightarrow> ref \<Rightarrow> ref \<Rightarrow> bool" where
  "in_subtree n r a = (take (length r) a = r \<and> node_at n (drop (length r) a) \<noteq> None)"

text \<open>
  A traversal and a loop over the pages without a store: what \<open>traverse_p\<close> and
  \<open>for_pages\<close> compute when the visitor changes its accumulator by \<open>f\<close>.
\<close>

fun ptrav :: "(node \<Rightarrow> ref \<Rightarrow> 'a \<Rightarrow> 'a) \<Rightarrow> node \<Rightarrow> ref \<Rightarrow> 'a \<Rightarrow> 'a"
  and ptrav_kids :: "(node \<Rightarrow> ref \<Rightarrow> 'a \<Rightarrow> 'a) \<Rightarrow> node list \<Rightarrow> ref \<Rightarrow> nat \<Rightarrow> 'a \<Rightarrow> 'a"
  where
  "ptrav f (Node a ks) r acc = ptrav_kids f ks r 0 (f (Node a ks) r acc)"
| "ptrav_kids f [] r i acc = acc"
| "ptrav_kids f (k # ks) r i acc = ptrav_kids f ks r (Suc i) (ptrav f k (r @ [i]) acc)"

fun pfor :: "(nat \<Rightarrow> node \<Rightarrow> 'a \<Rightarrow> 'a) \<Rightarrow> node list \<Rightarrow> nat \<Rightarrow> 'a \<Rightarrow> 'a" where
  "pfor g [] i acc = acc"
| "pfor g (p # ps) i acc = pfor g ps (Suc i) (g i p acc)"

text \<open>
  The path that \<open>makePath\<close> builds on a linked store, and the lists after the visit of a
  node on a linked store.
\<close>

definition path_of :: "node \<Rightarrow> ref \<Rightarrow> string \<Rightarrow> ref \<Rightarrow> string" where
  "path_of doc page pgName r =
     join '' / '' (rev (fold (path_part doc) (chain_refs page r) [] @ [pgName]))"

definition ui_pure :: "dict \<Rightarrow> node \<Rightarrow> ref \<Rightarrow> string \<Rightarrow> node \<Rightarrow> ref \<Rightarrow> ui_lists \<Rightarrow> ui_lists" where
  "ui_pure componentById doc page pgName n r ls =
     (let nm = instance_name componentById n;
          inst = (type (attrs n) = Some ''INSTANCE'' \<and> componentId (attrs n) \<noteq> None)
      in if inst \<and> (nm = [] \<or> isIconComponentName nm) then ls
         else if inst \<and> isUiComponentName nm then
           push_item (instanceCat nm)
             \<lparr>item_name = nm, item_path = path_of doc page pgName r\<rparr> ls
         else
           (case classifyStructuralUi n of
              None \<Rightarrow> ls
            | Some k \<Rightarrow>
                push_item (Some k)
                  \<lparr>item_name = str_or (name (attrs n)) (kind_str k),
                   item_path = path_of doc page pgName r\<rparr> ls))"

text \<open>The same for the two inspectors.\<close>

definition path_inspect_of :: "node \<Rightarrow> ref \<Rightarrow> string \<Rightarrow> ref \<Rightarrow> string" where
  "path_inspect_of doc page pgName r =
     join '' / '' (rev (fold (inspect_part doc) (chain_refs page r) [] @ [pgName]))"

definition button_pure ::
  "node \<Rightarrow> ref \<Rightarrow> string \<Rightarrow> node \<Rightarrow> ref \<Rightarrow> button_entry list \<Rightarrow> button_entry list" where
  "button_pure doc page pgName n r acc =
     (if str_or (name (attrs n)) '''' = [] \<or> \<not> isButtonName (str_or (name (attrs n)) '''')
      then acc
      else acc @ [\<lparr>be_page = pgName, be_path = path_inspect_of doc page pgName r,
                    be_info = extractButtonInfo n\<rparr>])"

definition card_pure ::
  "node \<Rightarrow> ref \<Rightarrow> string \<Rightarrow> node \<Rightarrow> ref \<Rightarrow> card_entry list \<Rightarrow> card_entry list" where
  "card_pure doc page pgName n r acc =
     (if \<not> classifyAsCard n then acc
      else acc @
        [\<lparr>ce_page = pgName,
          ce_view = fold (topFrame_step doc) (chain_refs page r) pgName,
          ce_path = path_inspect_of doc page pgName r,
          ce_info = extractCardInfo n,
          ce_role = inferRole (fold (topFrame_step doc) (chain_refs page r) pgName)
                      (ci_name (extractCardInfo n))\<rparr>])"

definition ui_page_pure :: "dict \<Rightarrow> node \<Rightarrow> nat \<Rightarrow> node \<Rightarrow> page_report list \<Rightarrow> page_report list" where
  "ui_page_pure componentById doc i page acc =
     acc @ [\<lparr>pageName = str_or (name (attrs page)) ''(isimsiz sayfa)'',
             ui = ptrav (ui_pure componentById doc [i]
                           (str_or (name (attrs page)) ''(isimsiz sayfa)''))
                    page [i] no_items\<rparr>]"

text \<open>The store after the pages of a document have been traversed from the store \<open>hp\<close>.\<close>

definition store_after :: "node \<Rightarrow> pheap \<Rightarrow> pheap" where
  "store_after doc hp = (\<lambda>a. if in_pages doc a then Some (written a) else hp a)"

section \<open>The memory of a run\<close>

text \<open>
  What an analyser works on: the file object, with the document tree and the component
  dictionary as the fetch has built them, and the \<open>__parent\<close> fields of the node objects.
  The object at an address has the fields of the node there, its children and its
  \<open>__parent\<close> field, if it has one.
\<close>

record memory =
  mem_file :: figma_file
  mem_parent :: pheap

record object =
  obj_fields :: nattrs
  obj_children :: "node list"
  obj_parent :: "pval option"

definition object_at :: "memory \<Rightarrow> ref \<Rightarrow> object option" where
  "object_at m a =
     (case node_at (document (mem_file m)) a of
        None \<Rightarrow> None
      | Some n \<Rightarrow> Some \<lparr>obj_fields = attrs n, obj_children = kids n, obj_parent = mem_parent m a\<rparr>)"

text \<open>\<open>Array.isArray(node?.children) ? node.children : []\<close> on the object at \<open>r\<close>.\<close>

definition children_at :: "memory \<Rightarrow> ref \<Rightarrow> node list" where
  "children_at m r = (case node_at (document (mem_file m)) r of None \<Rightarrow> [] | Some n \<Rightarrow> kids n)"

text \<open>
  \<open>traverse\<close> on the memory. The callback gets the address of the object, the parent and
  the state: its accumulator and the memory, which it gives back; the children are read in
  the memory the callback has left. \<open>Traverse r parent\<close> is the call of \<open>traverse\<close> on
  the object at \<open>r\<close>, \<open>Children r i\<close> the rest of its loop over the children from the
  child \<open>i\<close> on. Nothing bounds the recursion on a memory that a callback may change, so
  the function is partial; \<open>None\<close> is a traversal that does not end. The \<open>traverse\<close> of
  the palette, of the usage report and of the inventory is the same function without the
  parent, which their callbacks do not get.
\<close>

datatype call = Traverse ref pval | Children ref nat

partial_function (option) traverse_mem ::
  "(ref \<Rightarrow> pval \<Rightarrow> 's \<times> memory \<Rightarrow> ('s \<times> memory) option) \<Rightarrow> call
     \<Rightarrow> 's \<times> memory \<Rightarrow> ('s \<times> memory) option" where
  "traverse_mem visit c s =
     (case c of
        Traverse r parent \<Rightarrow>
          Option.bind (visit r parent s) (\<lambda>s1. traverse_mem visit (Children r 0) s1)
      | Children r i \<Rightarrow>
          if i < length (children_at (snd s) r)
          then Option.bind (traverse_mem visit (Traverse (r @ [i]) (Ref r)) s)
                 (\<lambda>s1. traverse_mem visit (Children r (Suc i)) s1)
          else Some s)"

text \<open>
  The callbacks on the memory. \<open>visit_mem\<close> is a callback that builds paths: it works on
  the object at \<open>r\<close>, reads the document in the memory and assigns \<open>__parent\<close> fields.
  \<open>read_mem\<close> is a callback that reads the object at \<open>r\<close> and assigns nothing.
  \<open>traverse\<close> returns at once on a node that is not there.
\<close>

definition visit_mem ::
  "(node \<Rightarrow> node \<Rightarrow> ref \<Rightarrow> pval \<Rightarrow> 'a \<times> pheap \<Rightarrow> ('a \<times> pheap) option)
     \<Rightarrow> ref \<Rightarrow> pval \<Rightarrow> 'a \<times> memory \<Rightarrow> ('a \<times> memory) option" where
  "visit_mem visit r parent s =
     (case node_at (document (mem_file (snd s))) r of
        None \<Rightarrow> Some s
      | Some n \<Rightarrow>
          (case visit (document (mem_file (snd s))) n r parent (fst s, mem_parent (snd s)) of
             None \<Rightarrow> None
           | Some s1 \<Rightarrow> Some (fst s1, (snd s)\<lparr>mem_parent := snd s1\<rparr>)))"

definition read_mem ::
  "(node \<Rightarrow> 'a \<Rightarrow> 'a) \<Rightarrow> ref \<Rightarrow> pval \<Rightarrow> 'a \<times> memory \<Rightarrow> ('a \<times> memory) option" where
  "read_mem visit r parent s =
     (case node_at (document (mem_file (snd s))) r of
        None \<Rightarrow> Some s
      | Some n \<Rightarrow> Some (visit n (fst s), snd s))"

text \<open>
  The six analysers on the memory: each gives its report and the memory it leaves, and
  \<open>None\<close> when it does not end. The palette and the inventory traverse the document, the
  other four traverse the pages one after the other.
\<close>

definition main_palette :: "memory \<Rightarrow> ((string \<times> nat) list \<times> memory) option" where
  "main_palette m =
     (case traverse_mem (read_mem palette_visit) (Traverse [] Undefined) ([], m) of
        None \<Rightarrow> None
      | Some s \<Rightarrow>
          Some (take 50 (array_sort (\<lambda>a b. int (snd b) - int (snd a)) (fst s)), snd s))"

definition usage_page_step ::
  "(string \<Rightarrow> string \<Rightarrow> int) \<Rightarrow> dict \<Rightarrow> nat \<Rightarrow> node \<Rightarrow> usage_page list \<times> memory
     \<Rightarrow> (usage_page list \<times> memory) option" where
  "usage_page_step localeCompare componentById i page s =
     (let pn = str_or (name_at (document (mem_file (snd s))) [i]) ''(isimsiz sayfa)'' in
      case traverse_mem (read_mem count_instance) (Traverse [i] Undefined) ([], snd s) of
        None \<Rightarrow> None
      | Some st \<Rightarrow>
          Some (fst s @ [\<lparr>up_pageName = pn,
                           up_componentsUsed =
                             array_sort (usage_cmp localeCompare)
                               (map (to_usage componentById) (fst st))\<rparr>], snd st))"

definition main_usage ::
  "(string \<Rightarrow> string \<Rightarrow> int) \<Rightarrow> string \<Rightarrow> memory \<Rightarrow> (usage_report \<times> memory) option" where
  "main_usage localeCompare fkey m =
     (case for_pages (usage_page_step localeCompare (componentById_of (mem_file m)))
             (children_at m []) 0 ([], m) of
        None \<Rightarrow> None
      | Some s \<Rightarrow>
          Some (\<lparr>ur_fileName = fileName_of (mem_file m), ur_fileKey = fkey, ur_pages = fst s,
                  ur_allComponents = map (\<lambda>e.
                    \<lparr> ce_nodeId = fst e, ce_key = meta_key (snd e), ce_name = meta_name (snd e),
                      ce_description = meta_description (snd e),
                      ce_componentSetId = meta_componentSetId (snd e) \<rparr>)
                    (components (mem_file m))\<rparr>, snd s))"

definition main_inventory :: "memory \<Rightarrow> ((string \<times> nat) list \<times> memory) option" where
  "main_inventory m =
     (case traverse_mem (read_mem count_instance) (Traverse [] Undefined) ([], m) of
        None \<Rightarrow> None
      | Some s \<Rightarrow>
          Some (map (\<lambda>e. (fst e, (case map_of (fst s) (fst e) of None \<Rightarrow> 0 | Some c \<Rightarrow> c)))
                  (components (mem_file m)), snd s))"

definition ui_page_step_mem ::
  "dict \<Rightarrow> nat \<Rightarrow> node \<Rightarrow> page_report list \<times> memory \<Rightarrow> (page_report list \<times> memory) option" where
  "ui_page_step_mem componentById i page s =
     (let pn = str_or (name_at (document (mem_file (snd s))) [i]) ''(isimsiz sayfa)'' in
      case traverse_mem (visit_mem (\<lambda>doc. visit_ui componentById doc [i] pn))
             (Traverse [i] Undefined) (no_items, snd s) of
        None \<Rightarrow> None
      | Some st \<Rightarrow> Some (fst s @ [\<lparr>pageName = pn, ui = fst st\<rparr>], snd st))"

definition main_classification :: "string \<Rightarrow> memory \<Rightarrow> (ui_report \<times> memory) option" where
  "main_classification fkey m =
     (case for_pages (ui_page_step_mem (componentById_of (mem_file m))) (children_at m []) 0
             ([], m) of
        None \<Rightarrow> None
      | Some s \<Rightarrow>
          Some (\<lparr>fileName = fileName_of (mem_file m), fileKey = fkey, pages = fst s\<rparr>, snd s))"

text \<open>The page name of the inspectors, read on the page \<open>i\<close> in the memory.\<close>

definition pageName_at :: "memory \<Rightarrow> nat \<Rightarrow> string" where
  "pageName_at m i =
     (case name_at (document (mem_file m)) [i] of None \<Rightarrow> ''(page)'' | Some s \<Rightarrow> s)"

definition main_buttons :: "string \<Rightarrow> memory \<Rightarrow> (buttons_report \<times> memory) option" where
  "main_buttons fkey m =
     (case for_pages (\<lambda>i page s. traverse_mem
               (visit_mem (\<lambda>doc. visit_button doc [i] (pageName_at (snd s) i)))
               (Traverse [i] Undefined) s)
             (children_at m []) 0 ([], m) of
        None \<Rightarrow> None
      | Some s \<Rightarrow>
          Some (\<lparr>br_fileName = fileName_of (mem_file m), br_fileKey = fkey, br_buttons = fst s\<rparr>,
                snd s))"

definition main_cards :: "string \<Rightarrow> memory \<Rightarrow> (cards_report \<times> memory) option" where
  "main_cards fkey m =
     (case for_pages (\<lambda>i page s. traverse_mem
               (visit_mem (\<lambda>doc. visit_card doc [i] (pageName_at (snd s) i)))
               (Traverse [i] Undefined) s)
             (children_at m []) 0 ([], m) of
        None \<Rightarrow> None
      | Some s \<Rightarrow>
          Some (\<lparr>cr_fileName = fileName_of (mem_file m), cr_fileKey = fkey, cr_cards = fst s\<rparr>,
                snd s))"

text \<open>
  A result on the store of the \<open>__parent\<close> fields, as a result on the memory that holds
  the file \<open>file\<close>.
\<close>

definition lift_mem :: "figma_file \<Rightarrow> ('a \<times> pheap) option \<Rightarrow> ('a \<times> memory) option" where
  "lift_mem file x = map_option (\<lambda>s. (fst s, \<lparr>mem_file = file, mem_parent = snd s\<rparr>)) x"

section \<open>Named conditions of the specification\<close>

text \<open>
  The conditions the specification names, in its own words: the node kinds the structural
  classifier accepts and a name with one of the keywords of its name shortcuts.
\<close>

definition structuralType :: "node \<Rightarrow> bool" where
  "structuralType n =
     (type (attrs n) \<in> {Some ''FRAME'', Some ''GROUP'', Some ''COMPONENT'',
                        Some ''INSTANCE'', Some ''RECTANGLE''})"

definition nameShortcut :: "node \<Rightarrow> bool" where
  "nameShortcut n =
     list_ex (str_includes (toLowerCase (str_or (name (attrs n)) '''')))
       [''button'', ''btn'', ''input'', ''textfield'', ''text field'', ''card'']"

text \<open>
  The category the keywords in the name of a node stand for, in the order in which the
  name shortcuts are read: "button" or "btn", then "input", "textfield" or "text field",
  then "card".
\<close>

definition nameKind :: "node \<Rightarrow> kind option" where
  "nameKind n =
     (let lname = toLowerCase (str_or (name (attrs n)) '''') in
      if list_ex (str_includes lname) [''button'', ''btn''] then Some Button
      else if list_ex (str_includes lname) [''input'', ''textfield'', ''text field'']
           then Some Input
      else if str_includes lname ''card'' then Some Card
      else None)"

text \<open>
  The attributes the three structural rules of the specification speak of, each defined
  from the fields of the node and not from the extractors of the source: a solid fill, a
  stroke, the number of immediate TEXT children, the number of immediate children that
  are icon-like (each such child counts once), and the resolved width and height, the
  first number found among the bounding box, the size vector and the direct field.
\<close>

definition solidFill :: "node \<Rightarrow> bool" where
  "solidFill n =
     (filter (\<lambda>p. ptype p = Some ''SOLID'' \<and> visible p \<noteq> Some False \<and> color p \<noteq> None)
        (fills (attrs n)) \<noteq> [])"

definition anyStroke :: "node \<Rightarrow> bool" where
  "anyStroke n = (filter (\<lambda>s. visible s \<noteq> Some False) (strokes (attrs n)) \<noteq> [])"

definition textChildCount :: "node \<Rightarrow> nat" where
  "textChildCount n = length (filter (\<lambda>c. type (attrs c) = Some ''TEXT'') (kids n))"

definition iconInstance :: "node \<Rightarrow> bool" where
  "iconInstance c =
     (type (attrs c) = Some ''INSTANCE'' \<and>
      (case name (attrs c) of None \<Rightarrow> False | Some s \<Rightarrow> isIconComponentName s))"

definition iconLikeChild :: "node \<Rightarrow> bool" where
  "iconLikeChild c = (isIconComponentName (str_or (name (attrs c)) '''') \<or> iconInstance c)"

definition iconLikeChildCount :: "node \<Rightarrow> nat" where
  "iconLikeChildCount n = length (filter iconLikeChild (kids n))"

definition first_number :: "real option list \<Rightarrow> real option" where
  "first_number xs = (case List.map_filter (\<lambda>x. x) xs of [] \<Rightarrow> None | v # vs \<Rightarrow> Some v)"

definition resolvedWidth :: "node \<Rightarrow> real option" where
  "resolvedWidth n =
     first_number [Option.bind (absoluteBoundingBox (attrs n)) box_width,
                   Option.bind (size_v (attrs n)) vec_x, width (attrs n)]"

definition resolvedHeight :: "node \<Rightarrow> real option" where
  "resolvedHeight n =
     first_number [Option.bind (absoluteBoundingBox (attrs n)) box_height,
                   Option.bind (size_v (attrs n)) vec_y, height (attrs n)]"

text \<open>A resolved measure that is a number between two bounds, or at least a bound.\<close>

definition between :: "real option \<Rightarrow> real \<Rightarrow> real \<Rightarrow> bool" where
  "between v lo hi = (case v of None \<Rightarrow> False | Some x \<Rightarrow> lo \<le> x \<and> x \<le> hi)"

definition at_least :: "real option \<Rightarrow> real \<Rightarrow> bool" where
  "at_least v lo = (case v of None \<Rightarrow> False | Some x \<Rightarrow> lo \<le> x)"

text \<open>
  The three rules. The input rule is split: \<open>inputShape\<close> is all of it but the bound on
  the icon-like children.
\<close>

definition buttonRule :: "node \<Rightarrow> bool" where
  "buttonRule n = (solidFill n \<and> 1 \<le> textChildCount n \<and> between (resolvedHeight n) 28 64)"

definition inputShape :: "node \<Rightarrow> bool" where
  "inputShape n =
     ((anyStroke n \<or> solidFill n) \<and> at_least (resolvedWidth n) 200 \<and>
      between (resolvedHeight n) 34 72 \<and> textChildCount n \<le> 1)"

definition inputRule :: "node \<Rightarrow> bool" where
  "inputRule n = (inputShape n \<and> iconLikeChildCount n \<le> 2)"

definition cardRule :: "node \<Rightarrow> bool" where
  "cardRule n =
     (solidFill n \<and> at_least (resolvedWidth n) 200 \<and> at_least (resolvedHeight n) 120 \<and>
      2 \<le> length (kids n))"

text \<open>The rules in their order, the first match wins.\<close>

definition structuralRules :: "node \<Rightarrow> kind option" where
  "structuralRules n =
     (if buttonRule n then Some Button
      else if inputRule n then Some Input
      else if cardRule n then Some Card
      else None)"

text \<open>Rounding half away from zero, and the two upper-case hexadecimal digits of a byte.\<close>

definition round_half_away :: "real \<Rightarrow> int" where
  "round_half_away v = (if v \<ge> 0 then \<lfloor>v + 1 / 2\<rfloor> else \<lceil>v - 1 / 2\<rceil>)"

definition hex2 :: "int \<Rightarrow> string" where
  "hex2 v = [''0123456789ABCDEF'' ! nat (v div 16), ''0123456789ABCDEF'' ! nat (v mod 16)]"

section \<open>Named conditions of the usage report\<close>

text \<open>
  The nodes a traversal of a page visits, in the order of the visit: the page and all
  nodes under it. The instances of a component among them are what the usage report counts.
\<close>

fun preorder :: "node \<Rightarrow> node list" where
  "preorder (Node a ks) = Node a ks # concat (map preorder ks)"

definition is_instance_of :: "string \<Rightarrow> node \<Rightarrow> bool" where
  "is_instance_of cid n =
     (type (attrs n) = Some ''INSTANCE'' \<and> componentId (attrs n) = Some cid)"

definition instance_count :: "node \<Rightarrow> string \<Rightarrow> nat" where
  "instance_count page cid = length (filter (is_instance_of cid) (preorder page))"

definition display_name :: "dict \<Rightarrow> string \<Rightarrow> string" where
  "display_name componentById cid =
     (case componentById cid of
        None \<Rightarrow> ''(unknown component)''
      | Some m \<Rightarrow> (case meta_name m of None \<Rightarrow> ''(unknown component)'' | Some s \<Rightarrow> s))"

text \<open>
  A consistent comparison function: the sign of \<open>lc a b\<close> is the opposite of the sign of
  \<open>lc b a\<close>, and "not after" is transitive. Descending count, then ascending name.
\<close>

definition consistent_compare :: "(string \<Rightarrow> string \<Rightarrow> int) \<Rightarrow> bool" where
  "consistent_compare lc =
     ((\<forall>a b. (lc a b < 0) = (0 < lc b a)) \<and>
      (\<forall>a b c. lc a b \<le> 0 \<and> lc b c \<le> 0 \<longrightarrow> lc a c \<le> 0))"

definition usage_order :: "(string \<Rightarrow> string \<Rightarrow> int) \<Rightarrow> usage \<Rightarrow> usage \<Rightarrow> bool" where
  "usage_order lc a b =
     (used_count b < used_count a \<or>
      (used_count a = used_count b \<and> lc (used_name a) (used_name b) \<le> 0))"

text \<open>A comparison function to run the report with: the order of the character codes.\<close>

definition codeCompare :: "string \<Rightarrow> string \<Rightarrow> int" where
  "codeCompare a b = (if a < b then - 1 else if a = b then 0 else 1)"

text \<open>The count a map of counts holds for a key, 0 without an entry.\<close>

definition count_in :: "(string \<times> nat) list \<Rightarrow> string \<Rightarrow> nat" where
  "count_in m k = (case map_of m k of None \<Rightarrow> 0 | Some c \<Rightarrow> c)"

text \<open>A name with one of the keywords that decide the kind of an instance.\<close>

definition specificKind :: "string \<Rightarrow> bool" where
  "specificKind nm =
     list_ex (str_includes (toLowerCase nm))
       [''button'', ''btn'', ''card'', ''input'', ''text field'', ''textfield'']"

section \<open>Concrete documents\<close>

text \<open>A node with nothing set, to build concrete documents from.\<close>

definition blank :: nattrs where
  "blank = \<lparr> node_id = None, name = None, type = None, absoluteBoundingBox = None,
     size_v = None, width = None, height = None, fills = [], strokes = [],
     opacity = None, componentId = None, characters = None, cornerRadius = None,
     rectangleCornerRadii = None, strokeWeight = None \<rparr>"

definition solidRed :: paint where
  "solidRed = \<lparr> ptype = Some ''SOLID'', visible = None, color = Some (RGB 1 0 0),
     popacity = None \<rparr>"

definition textNode :: node where
  "textNode = Node (blank\<lparr>type := Some ''TEXT''\<rparr>) []"

text \<open>A frame with one solid fill, one text child and height 40.\<close>

definition frame40 :: node where
  "frame40 = Node (blank\<lparr>name := Some ''Continue'', type := Some ''FRAME'',
                          height := Some 40, fills := [solidRed]\<rparr>) [textNode]"

text \<open>The same frame with height 80.\<close>

definition frame80 :: node where
  "frame80 = Node (blank\<lparr>name := Some ''Continue'', type := Some ''FRAME'',
                          height := Some 80, fills := [solidRed]\<rparr>) [textNode]"

text \<open>A frame whose only child is an instance with an icon name.\<close>

definition iconHost :: node where
  "iconHost = Node (blank\<lparr>type := Some ''FRAME''\<rparr>)
      [Node (blank\<lparr>name := Some ''mdi:home'', type := Some ''INSTANCE''\<rparr>) []]"

definition primaryText :: node where
  "primaryText = Node (blank\<lparr>name := Some ''Primary Button'', type := Some ''TEXT''\<rparr>) []"

definition primaryFrame :: node where
  "primaryFrame = Node (blank\<lparr>name := Some ''Primary Button'', type := Some ''FRAME''\<rparr>) []"

definition iconButtonFrame :: node where
  "iconButtonFrame = Node (blank\<lparr>name := Some ''icon button'', type := Some ''FRAME''\<rparr>) []"

text \<open>
  An instance of a component that is not in the dictionary, with an icon name that also
  holds a keyword of the buttons.
\<close>

definition iconButtonInstance :: node where
  "iconButtonInstance =
     Node (blank\<lparr>name := Some ''icon button'', type := Some ''INSTANCE'',
                 componentId := Some ''9:9''\<rparr>) []"

text \<open>
  A dictionary with an icon component and a checkbox component, and an instance of the
  icon component that looks like a button: named so, filled, with a text, 40 high.
\<close>

definition someMeta :: "string \<Rightarrow> meta" where
  "someMeta nm = \<lparr> meta_key = None, meta_name = Some nm, meta_description = None,
     meta_componentSetId = None \<rparr>"

definition dict0 :: dict where
  "dict0 = map_of [(''1:2'', someMeta ''mdi:home''), (''1:3'', someMeta ''Checkbox'')]"

definition mdiInstance :: node where
  "mdiInstance =
     Node (blank\<lparr>name := Some ''Primary Button'', type := Some ''INSTANCE'',
                 componentId := Some ''1:2'', height := Some 40, fills := [solidRed]\<rparr>)
       [textNode]"

definition emptyState :: "ui_lists \<times> pheap" where
  "emptyState = (no_items, Map.empty)"

text \<open>
  The double nearest to 0.7, which a JSON parser gives for "0.7": \<open>6305039478318694 / 2^53\<close>.
\<close>

definition seventenths :: real where
  "seventenths = 6305039478318694 / 2 ^ 53"

text \<open>A node of opacity 0.5.\<close>

definition halfNode :: node where
  "halfNode = Node (blank\<lparr>opacity := Some (1 / 2)\<rparr>) []"

text \<open>
  A page with four instances of component A, two of component B and one instance of a
  component that is not in the dictionary.
\<close>

definition inst :: "string \<Rightarrow> node" where
  "inst cid = Node (blank\<lparr>type := Some ''INSTANCE'', componentId := Some cid\<rparr>) []"

definition dictAB :: dict where
  "dictAB = map_of [(''1:1'', someMeta ''A''), (''1:2'', someMeta ''B'')]"

definition pageAB :: node where
  "pageAB = Node (blank\<lparr>name := Some ''Page 1'', type := Some ''CANVAS''\<rparr>)
     [Node (blank\<lparr>name := Some ''View'', type := Some ''FRAME''\<rparr>)
        [inst ''1:2'', inst ''1:1'', inst ''7:7'', inst ''1:1''],
      inst ''1:2'', inst ''1:1'', inst ''1:1'']"

definition usageAB :: "usage list" where
  "usageAB =
     [\<lparr>used_componentId = ''1:1'', used_name = ''A'', used_key = None, used_count = 4\<rparr>,
      \<lparr>used_componentId = ''1:2'', used_name = ''B'', used_key = None, used_count = 2\<rparr>,
      \<lparr>used_componentId = ''7:7'', used_name = ''(unknown component)'', used_key = None,
        used_count = 1\<rparr>]"

text \<open>
  A file with one page "Auth" that holds one frame named "Primary Button", the report of
  the classification on it, and the store after the classification from the empty store.
\<close>

definition fileOne :: figma_file where
  "fileOne = \<lparr> file_name = Some ''Demo'',
     document = Node (blank\<lparr>type := Some ''DOCUMENT''\<rparr>)
       [Node (blank\<lparr>name := Some ''Auth'', type := Some ''CANVAS''\<rparr>) [primaryFrame]],
     components = [] \<rparr>"

definition reportOne :: ui_report where
  "reportOne = \<lparr> fileName = ''Demo'', fileKey = ''key'',
     pages = [\<lparr>pageName = ''Auth'',
               ui = \<lparr>buttons = [\<lparr>item_name = ''Primary Button'',
                                  item_path = ''Auth / Primary Button''\<rparr>],
                     inputs = [], cards = []\<rparr>\<rparr>] \<rparr>"

definition storeOne :: pheap where
  "storeOne = [[0] \<mapsto> Undefined, [0, 0] \<mapsto> Ref [0]]"

text \<open>
  An instance of the checkbox component of the dictionary that looks like a button: named
  so, filled, with a text, 40 high.
\<close>

definition checkboxInstance :: node where
  "checkboxInstance =
     Node (blank\<lparr>name := Some ''Primary Button'', type := Some ''INSTANCE'',
                 componentId := Some ''1:3'', height := Some 40, fills := [solidRed]\<rparr>)
       [textNode]"

text \<open>A frame with a stroke and no fill, 300 wide and 200 high, with two children.\<close>

definition strokeFrame :: node where
  "strokeFrame =
     Node (blank\<lparr>name := Some ''Panel'', type := Some ''FRAME'', width := Some 300,
                 height := Some 200,
                 strokes := [\<lparr>ptype = Some ''SOLID'', visible = None, color = None,
                              popacity = None\<rparr>]\<rparr>)
       [textNode, textNode]"

text \<open>
  A search field: a frame named "Search", 300 wide and 40 high, with a stroke and no fill,
  whose two children are instances with icon names.
\<close>

definition searchField :: node where
  "searchField =
     Node (blank\<lparr>name := Some ''Search'', type := Some ''FRAME'', width := Some 300,
                 height := Some 40,
                 strokes := [\<lparr>ptype = Some ''SOLID'', visible = None, color = None,
                              popacity = None\<rparr>]\<rparr>)
       [Node (blank\<lparr>name := Some ''mdi:magnify'', type := Some ''INSTANCE''\<rparr>) [],
        Node (blank\<lparr>name := Some ''mdi:close'', type := Some ''INSTANCE''\<rparr>) []]"

text \<open>
  Nodes with an icon name that also holds a keyword of the inputs, of the cards or of the
  buttons: two frames and a text node.
\<close>

definition iconInputFrame :: node where
  "iconInputFrame = Node (blank\<lparr>name := Some ''icon input'', type := Some ''FRAME''\<rparr>) []"

definition iconCardFrame :: node where
  "iconCardFrame = Node (blank\<lparr>name := Some ''icon card'', type := Some ''FRAME''\<rparr>) []"

definition iconButtonText :: node where
  "iconButtonText = Node (blank\<lparr>name := Some ''icon button'', type := Some ''TEXT''\<rparr>) []"

text \<open>A document whose only page holds the frame named "icon button".\<close>

definition iconDoc :: node where
  "iconDoc = Node blank [Node (blank\<lparr>name := Some ''Page''\<rparr>) [iconButtonFrame]]"

section \<open>Facts about the string functions\<close>

lemma startsWith_iff: "startsWith s h \<longleftrightarrow> (\<exists>q. s = h @ q)"
  by (induction s h rule: startsWith.induct) auto

lemma str_includes_iff: "str_includes s h \<longleftrightarrow> (\<exists>p q. s = p @ h @ q)"
proof (induction s)
  case Nil
  then show ?case by auto
next
  case (Cons c cs)
  show ?case
  proof
    assume "str_includes (c # cs) h"
    then consider "startsWith (c # cs) h" | "str_includes cs h" by auto
    then show "\<exists>p q. c # cs = p @ h @ q"
    proof cases
      case 1
      then obtain q where "c # cs = h @ q" by (auto simp: startsWith_iff)
      then have "c # cs = [] @ h @ q" by simp
      then show ?thesis by blast
    next
      case 2
      then obtain p q where "cs = p @ h @ q" using Cons.IH by auto
      then have "c # cs = (c # p) @ h @ q" by simp
      then show ?thesis by blast
    qed
  next
    assume "\<exists>p q. c # cs = p @ h @ q"
    then obtain p q where pq: "c # cs = p @ h @ q" by auto
    show "str_includes (c # cs) h"
    proof (cases p)
      case Nil
      then have "startsWith (c # cs) h" using pq by (simp add: startsWith_iff)
      then show ?thesis by simp
    next
      case (Cons a p')
      then have "cs = p' @ h @ q" using pq by simp
      then show ?thesis using Cons.IH by auto
    qed
  qed
qed

section \<open>Evaluation of concrete documents\<close>

lemmas eval_defs =
  classifyStructuralUi_def blank_def solidRed_def toLowerCase_def toLowerChar_def
  resolved_height_def resolved_width_def nullish_def str_or_def childTextCount_def
  childIconLikeCount_def iconLikeStep_def isIconComponentName_def iconHints_def
  hasAnySolidFill_def hasStroke_def isUiComponentName_def uiHints_def textNode_def
  structuralType_def nameShortcut_def

lemmas rule_defs =
  structuralRules_def buttonRule_def inputRule_def inputShape_def cardRule_def between_def
  at_least_def solidFill_def anyStroke_def textChildCount_def iconLikeChildCount_def
  iconLikeChild_def iconInstance_def resolvedWidth_def resolvedHeight_def first_number_def

section \<open>The structural classifier\<close>

text \<open>
  The extractors of the source against the attributes of the specification. All agree but
  the count of the icon-like children: \<open>childIconLikeCount\<close> counts an INSTANCE child with
  an icon name twice.
\<close>

lemma hasAnySolidFill_solidFill: "hasAnySolidFill n = solidFill n"
  by (simp add: hasAnySolidFill_def solidFill_def list_ex_iff filter_empty_conv)

lemma hasStroke_anyStroke: "hasStroke n = anyStroke n"
  by (simp add: hasStroke_def anyStroke_def list_ex_iff filter_empty_conv)

lemma fold_count: "fold (\<lambda>ch count. if P ch then count + 1 else count) xs (a::nat)
    = a + length (filter P xs)"
  by (induction xs arbitrary: a) simp_all

lemma childTextCount_textChildCount: "childTextCount n = textChildCount n"
  by (simp add: childTextCount_def textChildCount_def fold_count)

lemma iconLikeStep_count:
  "iconLikeStep ch count
     = count + (if iconLikeChild ch then 1 else 0) + (if iconInstance ch then 1 else 0)"
  by (cases "name (attrs ch)")
     (auto simp: iconLikeStep_def iconLikeChild_def iconInstance_def str_or_def Let_def
        isIconComponentName_def iconHints_def toLowerCase_def)

lemma fold_iconLikeStep:
  "fold iconLikeStep xs a
     = a + length (filter iconLikeChild xs) + length (filter iconInstance xs)"
  by (induction xs arbitrary: a) (simp_all add: iconLikeStep_count)

lemma childIconLikeCount_twice:
  "childIconLikeCount n = iconLikeChildCount n + length (filter iconInstance (kids n))"
  by (simp add: childIconLikeCount_def iconLikeChildCount_def fold_iconLikeStep)

lemma nullish_first_number:
  "nullish a (nullish b c) = first_number [a, b, c]"
  by (cases a; cases b; cases c) (simp_all add: nullish_def first_number_def)

lemma resolved_width_resolvedWidth: "resolved_width n = resolvedWidth n"
  by (simp add: resolved_width_def resolvedWidth_def nullish_first_number)

lemma resolved_height_resolvedHeight: "resolved_height n = resolvedHeight n"
  by (simp add: resolved_height_def resolvedHeight_def nullish_first_number)

text \<open>
  On a node of one of the five kinds without a keyword of the name shortcuts the
  classifier tests the button rule, then the input rule with its own count of the
  icon-like children, then the card rule. So it follows the rules of the specification on
  every node without an INSTANCE child that has an icon name; a node without a resolved
  height is not classified, a node without a resolved width can at most be a button.
\<close>

lemma classifyStructuralUi_own_count:
  assumes ty: "structuralType n"
    and nokw: "\<not> nameShortcut n"
  shows "classifyStructuralUi n =
           (if buttonRule n then Some Button
            else if inputShape n \<and>
                    iconLikeChildCount n + length (filter iconInstance (kids n)) \<le> 2
                 then Some Input
            else if cardRule n then Some Card
            else None)"
proof -
  have ty': "\<not> (type (attrs n) \<noteq> Some ''FRAME'' \<and> type (attrs n) \<noteq> Some ''GROUP'' \<and>
       type (attrs n) \<noteq> Some ''COMPONENT'' \<and> type (attrs n) \<noteq> Some ''INSTANCE'' \<and>
       type (attrs n) \<noteq> Some ''RECTANGLE'')"
    using ty unfolding structuralType_def by blast
  have kw: "\<not> str_includes (toLowerCase (str_or (name (attrs n)) [])) ''button''"
    "\<not> str_includes (toLowerCase (str_or (name (attrs n)) [])) ''btn''"
    "\<not> str_includes (toLowerCase (str_or (name (attrs n)) [])) ''input''"
    "\<not> str_includes (toLowerCase (str_or (name (attrs n)) [])) ''textfield''"
    "\<not> str_includes (toLowerCase (str_or (name (attrs n)) [])) ''text field''"
    "\<not> str_includes (toLowerCase (str_or (name (attrs n)) [])) ''card''"
    using nokw unfolding nameShortcut_def by simp_all
  show ?thesis
  proof (cases "resolvedHeight n")
    case None
    then show ?thesis
      unfolding classifyStructuralUi_def Let_def buttonRule_def inputShape_def cardRule_def
        hasAnySolidFill_solidFill hasStroke_anyStroke childTextCount_textChildCount
        childIconLikeCount_twice resolved_width_resolvedWidth resolved_height_resolvedHeight
      by (simp add: ty' kw between_def at_least_def split: option.split)
  next
    case hv: (Some hv)
    show ?thesis
    proof (cases "resolvedWidth n")
      case None
      then show ?thesis
        unfolding classifyStructuralUi_def Let_def buttonRule_def inputShape_def cardRule_def
          hasAnySolidFill_solidFill hasStroke_anyStroke childTextCount_textChildCount
          childIconLikeCount_twice resolved_width_resolvedWidth resolved_height_resolvedHeight
        using hv by (simp add: ty' kw between_def at_least_def)
    next
      case (Some wv)
      then show ?thesis
        unfolding classifyStructuralUi_def Let_def buttonRule_def inputShape_def cardRule_def
          hasAnySolidFill_solidFill hasStroke_anyStroke childTextCount_textChildCount
          childIconLikeCount_twice resolved_width_resolvedWidth resolved_height_resolvedHeight
        using hv by (simp add: ty' kw between_def at_least_def)
    qed
  qed
qed

lemma classifyStructuralUi_follows_rules:
  assumes "structuralType n"
    and "\<not> nameShortcut n"
    and "filter iconInstance (kids n) = []"
  shows "classifyStructuralUi n = structuralRules n
         \<and> (resolvedHeight n = None \<longrightarrow> classifyStructuralUi n = None)
         \<and> (resolvedWidth n = None \<longrightarrow> classifyStructuralUi n \<in> {None, Some Button})"
proof -
  have rules: "classifyStructuralUi n = structuralRules n"
    unfolding classifyStructuralUi_own_count [OF assms(1,2)] structuralRules_def inputRule_def
    using assms(3) by simp
  have "resolvedHeight n = None \<longrightarrow> classifyStructuralUi n = None"
    unfolding rules
    by (simp add: structuralRules_def buttonRule_def inputRule_def inputShape_def cardRule_def
        between_def at_least_def)
  moreover have "resolvedWidth n = None \<longrightarrow> classifyStructuralUi n \<in> {None, Some Button}"
    unfolding rules
    by (simp add: structuralRules_def buttonRule_def inputRule_def inputShape_def cardRule_def
        between_def at_least_def)
  ultimately show ?thesis using rules by blast
qed

text \<open>
  The frame with a fill, a text child and height 40 is a button by the button rule; the
  same frame with height 80 matches no rule and is not classified.
\<close>

lemma structural_button_fallback:
  "structuralRules frame40 = Some Button \<and> classifyStructuralUi frame40 = Some Button
   \<and> structuralRules frame80 = None \<and> classifyStructuralUi frame80 = None"
proof -
  have ty: "structuralType frame40" "structuralType frame80"
    by (simp_all add: frame40_def frame80_def eval_defs)
  have nokw: "\<not> nameShortcut frame40" "\<not> nameShortcut frame80"
    by (simp_all add: frame40_def frame80_def eval_defs)
  have ni: "filter iconInstance (kids frame40) = []" "filter iconInstance (kids frame80) = []"
    by (simp_all add: frame40_def frame80_def textNode_def blank_def iconInstance_def)
  have r40: "structuralRules frame40 = Some Button"
    by (simp add: frame40_def rule_defs eval_defs)
  have r80: "structuralRules frame80 = None"
    by (simp add: frame80_def rule_defs eval_defs)
  from classifyStructuralUi_follows_rules [OF ty(1) nokw(1) ni(1)]
    classifyStructuralUi_follows_rules [OF ty(2) nokw(2) ni(2)] r40 r80
  show ?thesis by simp
qed

text \<open>
  Claim C1. The rules of the claim make the search field an input: it is a frame without
  a keyword in its name, it has a stroke, width 300, height 40, no TEXT child and two
  icon-like children. The classifier returns no classification for it: its count of the
  icon-like children is 4, each of the two instances being counted twice, and 4 is above
  the bound of the input rule.
\<close>

theorem classifyStructuralUi_misses_input:
  "structuralType searchField \<and> \<not> nameShortcut searchField
   \<and> \<not> buttonRule searchField \<and> inputRule searchField
   \<and> structuralRules searchField = Some Input
   \<and> length (kids searchField) = 2 \<and> iconLikeChildCount searchField = 2
   \<and> childIconLikeCount searchField = 4
   \<and> classifyStructuralUi searchField = None"
  by (simp add: searchField_def rule_defs eval_defs)

text \<open>
  Claim C9, as amended. For a node of one of the kinds FRAME, GROUP, COMPONENT, INSTANCE,
  RECTANGLE whose lower-cased name contains "button" or "btn", the structural classifier
  returns button whatever the geometry and the fills: the name check comes before the
  structural rules. The check of the kind comes first: a node of another kind gets no
  classification, whatever its name.
\<close>

theorem button_name_shortcut:
  "(structuralType n \<longrightarrow>
      str_includes (toLowerCase (str_or (name (attrs n)) '''')) ''button'' \<or>
      str_includes (toLowerCase (str_or (name (attrs n)) '''')) ''btn'' \<longrightarrow>
      classifyStructuralUi n = Some Button)
   \<and> (\<not> structuralType n \<longrightarrow> classifyStructuralUi n = None)"
  unfolding classifyStructuralUi_def structuralType_def Let_def by auto

theorem button_name_shortcut_witness:
  "structuralType primaryFrame
   \<and> str_includes (toLowerCase (str_or (name (attrs primaryFrame)) '''')) ''button''
   \<and> classifyStructuralUi primaryFrame = Some Button
   \<and> \<not> structuralType primaryText \<and> classifyStructuralUi primaryText = None"
proof -
  have a: "structuralType primaryFrame" by (simp add: primaryFrame_def eval_defs)
  have b: "str_includes (toLowerCase (str_or (name (attrs primaryFrame)) '''')) ''button''"
    by (simp add: primaryFrame_def eval_defs)
  have c: "\<not> structuralType primaryText" by (simp add: primaryText_def eval_defs)
  from button_name_shortcut [of primaryFrame] a b
  have d: "classifyStructuralUi primaryFrame = Some Button" by blast
  from button_name_shortcut [of primaryText] c
  have e: "classifyStructuralUi primaryText = None" by blast
  from a b c d e show ?thesis by blast
qed

text \<open>
  Claim C9 as stated fails: a TEXT node named "Primary Button" has "button" in its
  lower-cased name and is not classified as a button; the visitor of the report adds it
  to no list.
\<close>

theorem button_name_text_node_counterexample:
  "str_includes (toLowerCase (str_or (name (attrs primaryText)) '''')) ''button''
   \<and> classifyStructuralUi primaryText \<noteq> Some Button
   \<and> visit_ui dict0 (Node blank [Node blank [primaryText]]) [0] ''Page'' primaryText [0, 0]
        (Ref [0]) (no_items, Map.empty)
       = Some (no_items, [[0, 0] \<mapsto> Ref [0]])"
  by (simp add: primaryText_def visit_ui_def visit_structural_def eval_defs)

text \<open>
  Claim C8. The icon-like child count is meant to count each immediate child at most
  once. On a frame whose only child is an instance named "mdi:home" the source counts 2:
  both \<open>if\<close> statements of the loop body fire for the same child. The card inspector
  counts the same child once.
\<close>

theorem childIconLikeCount_counts_twice:
  "childIconLikeCount iconHost = 2 \<and> length (kids iconHost) = 1
   \<and> cc_iconCount (ci_content (extractCardInfo iconHost)) = 1"
  by (simp add: iconHost_def extractCardInfo_def card_child_step_def isIconName_def eval_defs)

section \<open>The visitor of the classification report\<close>

lemma isIconComponentName_nonempty: "isIconComponentName nm \<Longrightarrow> nm \<noteq> []"
  by (auto simp: isIconComponentName_def iconHints_def toLowerCase_def)

text \<open>
  Claim C6 as stated fails: the structural classifier has no icon check, so a frame named
  "icon button" matches an icon keyword and is still classified as a button, and the
  visitor of the report puts it on the list of the buttons.
\<close>

theorem icon_name_frame_counterexample:
  "isIconComponentName (str_or (name (attrs iconButtonFrame)) '''')
   \<and> classifyStructuralUi iconButtonFrame = Some Button
   \<and> visit_ui dict0 iconDoc [0] ''Page'' iconButtonFrame [0, 0] (Ref [0]) (no_items, Map.empty)
       = Some (\<lparr>buttons = [\<lparr>item_name = ''icon button'', item_path = ''Page / icon button''\<rparr>],
                inputs = [], cards = []\<rparr>, [[0, 0] \<mapsto> Ref [0]])"
  by (simp add: iconButtonFrame_def iconDoc_def visit_ui_def visit_structural_def makePath_def
      parent_loop.simps path_part_def name_at_def id_at_def read_parent_def push_item_def
      no_items_def kind_str_def eval_defs)

text \<open>
  Claim C7. An INSTANCE node whose component id is in the dictionary under a name that
  matches the icon heuristic is added to none of the three lists, whatever its geometry,
  fills, children and own name: the visitor only records the parent. The name that is
  tested is the name in the dictionary, not the name of the instance.
\<close>

theorem icon_instances_excluded:
  assumes "type (attrs n) = Some ''INSTANCE''"
    and "componentId (attrs n) = Some cid"
    and "componentById cid = Some m"
    and "meta_name m = Some dn"
    and "isIconComponentName dn"
  shows "instance_name componentById n = dn
         \<and> visit_ui componentById doc page pgName n r parent s
             = Some (fst s, (snd s)(r \<mapsto> parent))"
proof -
  have ne: "dn \<noteq> []" using assms(5) by (rule isIconComponentName_nonempty)
  have nm: "instance_name componentById n = dn"
    using assms(2,3,4) ne by (simp add: instance_name_def str_or_def)
  show ?thesis using assms(1,2,5) ne nm
    unfolding visit_ui_def Let_def by simp
qed

theorem icon_instances_excluded_witness:
  "type (attrs mdiInstance) = Some ''INSTANCE''
   \<and> componentId (attrs mdiInstance) = Some ''1:2''
   \<and> dict0 ''1:2'' = Some (someMeta ''mdi:home'')
   \<and> meta_name (someMeta ''mdi:home'') = Some ''mdi:home''
   \<and> isIconComponentName ''mdi:home''
   \<and> classifyStructuralUi mdiInstance = Some Button
   \<and> instance_name dict0 mdiInstance = ''mdi:home''
   \<and> visit_ui dict0 (Node blank [mdiInstance]) [0] ''Page'' mdiInstance [0, 0] (Ref [0])
        emptyState
      = Some (no_items, [[0, 0] \<mapsto> Ref [0]])"
proof -
  have a: "type (attrs mdiInstance) = Some ''INSTANCE''"
    by (simp add: mdiInstance_def blank_def)
  have b: "componentId (attrs mdiInstance) = Some ''1:2''"
    by (simp add: mdiInstance_def blank_def)
  have c: "dict0 ''1:2'' = Some (someMeta ''mdi:home'')" by (simp add: dict0_def)
  have d: "meta_name (someMeta ''mdi:home'') = Some ''mdi:home''" by (simp add: someMeta_def)
  have e: "isIconComponentName ''mdi:home''" by (simp add: eval_defs)
  have f: "classifyStructuralUi mdiInstance = Some Button"
    by (simp add: mdiInstance_def eval_defs)
  from icon_instances_excluded [where n = mdiInstance and componentById = dict0
      and cid = "''1:2''" and m = "someMeta ''mdi:home''" and dn = "''mdi:home''",
      OF a b c d e] a b c d e f
  show ?thesis by (simp add: emptyState_def)
qed

section \<open>Colours\<close>

lemma lt16_cases: "(k::nat) < 16 \<Longrightarrow> k \<in> {0,1,2,3,4,5,6,7,8,9,10,11,12,13,14,15}"
  by (simp add: insert_iff) arith

lemma upper_hexDigit: "k < 16 \<Longrightarrow> toUpperChar (hexDigit k) = ''0123456789ABCDEF'' ! k"
  by (drule lt16_cases) (auto simp: hexDigit_def toUpperChar_def)

text \<open>On a byte, \<open>toHex\<close> gives the two upper-case hexadecimal digits.\<close>

lemma toHex_byte:
  assumes "0 \<le> v" "v \<le> 255"
  shows "toHex v = hex2 v"
proof -
  obtain k where k: "v = int k" using assms(1) nonneg_int_cases by blast
  have k256: "k < 256" using assms(2) k by simp
  have lo: "k mod 16 < 16" by simp
  have hi: "k div 16 < 16" using k256 by simp
  have h2: "hex2 v = [''0123456789ABCDEF'' ! (k div 16), ''0123456789ABCDEF'' ! (k mod 16)]"
  proof -
    have "nat (int k div 16) = k div 16" by (simp add: nat_div_distrib)
    moreover have "nat (int k mod 16) = k mod 16" by (simp add: nat_mod_distrib)
    ultimately show ?thesis unfolding hex2_def k by simp
  qed
  show ?thesis
  proof (cases "k < 16")
    case True
    then have "toString16 v = [hexDigit k]"
      by (simp add: toString16_def k digits16.simps)
    then have "toHex v = [CHR ''0'', toUpperChar (hexDigit k)]"
      by (simp add: toHex_def padStart_def toUpperCase_def toUpperChar_def)
    then show ?thesis using True h2 by (simp add: upper_hexDigit)
  next
    case False
    then have "digits16 k = digits16 (k div 16) @ [hexDigit (k mod 16)]"
      by (subst digits16.simps) simp
    also have "digits16 (k div 16) = [hexDigit (k div 16)]"
      using hi by (subst digits16.simps) simp
    finally have "toString16 v = [hexDigit (k div 16), hexDigit (k mod 16)]"
      by (simp add: toString16_def k)
    then have "toHex v = [toUpperChar (hexDigit (k div 16)), toUpperChar (hexDigit (k mod 16))]"
      by (simp add: toHex_def padStart_def toUpperCase_def)
    then show ?thesis using h2 by (simp add: upper_hexDigit[OF hi] upper_hexDigit[OF lo])
  qed
qed

text \<open>The rounding to a double keeps a number that is not negative so, and below 255.\<close>

lemma round_even_le: "x \<le> of_int N \<Longrightarrow> round_even x \<le> N"
  unfolding round_even_def Let_def by (auto simp: floor_le_iff)

lemma round_even_nonneg: "0 \<le> x \<Longrightarrow> 0 \<le> round_even x"
  unfolding round_even_def Let_def by auto

lemma pow2_pos: "0 < pow2 k"
  by (simp add: pow2_def)

lemma to_double_nonneg: "0 \<le> p \<Longrightarrow> 0 \<le> to_double p"
  unfolding to_double_def Let_def
  by (auto intro!: mult_nonneg_nonneg round_even_nonneg divide_nonneg_pos
      simp: pow2_pos less_imp_le [OF pow2_pos])

lemma expo_less:
  assumes "0 < p" "p < 2 ^ n"
  shows "expo p < int n"
proof (cases "1 \<le> p")
  case True
  have "\<lfloor>p\<rfloor> < 2 ^ n" using assms(2) by (simp add: floor_less_iff)
  then have "bitlen \<lfloor>p\<rfloor> \<le> int n" by (simp add: bitlen_le_iff_power)
  then show ?thesis using True by (simp add: expo_def)
next
  case False
  have "0 < n \<or> n = 0" by auto
  then show ?thesis
  proof
    assume "0 < n"
    then show ?thesis
      using False bitlen_nonneg [of "\<lceil>1 / p\<rceil> - 1"] by (simp add: expo_def)
  next
    assume n: "n = 0"
    have "1 < 1 / p" using False assms(1) by simp
    then have "0 < \<lceil>1 / p\<rceil> - 1" by (simp add: less_ceiling_iff)
    then have "0 < bitlen (\<lceil>1 / p\<rceil> - 1)"
      using bitlen_eq_zero_iff [of "\<lceil>1 / p\<rceil> - 1"] bitlen_nonneg [of "\<lceil>1 / p\<rceil> - 1"]
      by linarith
    then show ?thesis using False n by (simp add: expo_def)
  qed
qed

lemma to_double_le_byte:
  assumes "0 \<le> p" "p \<le> 255"
  shows "to_double p \<le> 255"
proof (cases "p = 0")
  case True
  then show ?thesis by (simp add: to_double_def)
next
  case False
  then have pos: "0 < p" using assms(1) by simp
  define k where "k = max (expo \<bar>p\<bar>) (- 1022) - 52"
  have "p < 2 ^ 8" using assms(2) by simp
  from expo_less [OF pos this] have "expo p < 8" by simp
  then have k: "k < 0" using pos by (simp add: k_def)
  then have pw: "pow2 k = 1 / 2 ^ nat (- k)" by (simp add: pow2_def)
  have "p / pow2 k = p * 2 ^ nat (- k)" by (simp add: pw)
  also have "\<dots> \<le> 255 * 2 ^ nat (- k)" using assms(2) by simp
  also have "\<dots> = of_int (255 * 2 ^ nat (- k))" by simp
  finally have "round_even (p / pow2 k) \<le> 255 * 2 ^ nat (- k)" by (rule round_even_le)
  then have "real_of_int (round_even (p / pow2 k)) \<le> 255 * 2 ^ nat (- k)"
    by (metis of_int_le_iff of_int_mult of_int_numeral of_int_power)
  then have "real_of_int (round_even (p / pow2 k)) * pow2 k \<le> 255 * 2 ^ nat (- k) * pow2 k"
    using pow2_pos [of k] by (simp add: mult_right_mono)
  also have "\<dots> = 255" by (simp add: pw)
  finally show ?thesis using pos False by (simp add: to_double_def k_def Let_def)
qed

lemma Math_round_nonneg: "0 \<le> v \<Longrightarrow> Math_round v = round_half_away v"
  by (simp add: Math_round_def round_half_away_def)

lemma js_times_unit:
  assumes "0 \<le> v" "v \<le> 1"
  shows "0 \<le> js_times v 255 \<and> js_times v 255 \<le> 255"
proof -
  have "0 \<le> v * 255" "v * 255 \<le> 255" using assms by simp_all
  then show ?thesis unfolding js_times_def
    by (simp add: to_double_nonneg to_double_le_byte)
qed

lemma Math_round_unit:
  assumes "0 \<le> v" "v \<le> 1"
  shows "0 \<le> Math_round (js_times v 255) \<and> Math_round (js_times v 255) \<le> 255"
proof -
  have "0 \<le> js_times v 255" "js_times v 255 + 1 / 2 < 256"
    using js_times_unit [OF assms] by simp_all
  then show ?thesis unfolding Math_round_def
    by (simp add: floor_less_iff le_floor_iff)
qed

lemmas double_defs =
  js_times_def to_double_def expo_def round_even_def pow2_def compute_bitlen

text \<open>
  The doubles of the JSON numbers 0.1, 0.3 and 0.7, and the bytes of 0.3 and 0.7: the
  products with 255 are the doubles 76.5 and 178.5, although both factors are a little
  below 0.3 and 0.7.
\<close>

lemma to_double_examples:
  "to_double (1 / 10) = 3602879701896397 / 2 ^ 55
   \<and> to_double (3 / 10) = 5404319552844595 / 2 ^ 54
   \<and> to_double (7 / 10) = seventenths
   \<and> js_times (to_double (3 / 10)) 255 = 153 / 2
   \<and> Math_round (js_times (to_double (3 / 10)) 255) = 77
   \<and> Math_round (js_times seventenths 255) = 179"
  by (simp add: seventenths_def Math_round_def double_defs)

text \<open>
  Claim C2. For channels in [0,1] and an opacity that is not negative, the hex string of
  \<open>rgbaToHex\<close> is "#" followed by the two upper-case hexadecimal digits of each channel
  times 255, rounded half away from zero, followed by the two digits of the alpha byte
  exactly when that byte is below 255. The products are the products of the source, the
  double nearest to the exact product. The opacity a paint is converted with is its own
  opacity when present, else the opacity of the node, else 1, and the key under which the
  palette counts a visible solid paint is the hex string at that opacity.
\<close>

theorem rgbaToHex_canonical:
  assumes "0 \<le> cr" "cr \<le> 1" "0 \<le> cg" "cg \<le> 1" "0 \<le> cb" "cb \<le> 1" "0 \<le> op"
  shows "rgba (rgbaToHex (Some (RGB cr cg cb)) (Some op)) =
           ''#'' @ hex2 (round_half_away (js_times cr 255))
             @ hex2 (round_half_away (js_times cg 255))
             @ hex2 (round_half_away (js_times cb 255))
             @ (if round_half_away (js_times op 255) < 255
                then hex2 (round_half_away (js_times op 255)) else [])
         \<and> effectiveOpacity p n =
             (case popacity p of
                Some v \<Rightarrow> v
              | None \<Rightarrow> (case opacity (attrs n) of Some v \<Rightarrow> v | None \<Rightarrow> 1))
         \<and> (visible p \<noteq> Some False \<and> ptype p = Some ''SOLID'' \<and> color p \<noteq> None \<longrightarrow>
              paint_step n p m =
                bump m (rgba (rgbaToHex (color p) (Some (effectiveOpacity p n)))))"
proof -
  have op0: "0 \<le> js_times op 255"
    using assms(7) unfolding js_times_def by (simp add: to_double_nonneg)
  have a0: "0 \<le> Math_round (js_times op 255)"
    using op0 by (simp add: Math_round_def le_floor_iff)
  have ra: "Math_round (js_times op 255) = round_half_away (js_times op 255)"
    using op0 by (rule Math_round_nonneg)
  have rr: "toHex (Math_round (js_times cr 255)) = hex2 (round_half_away (js_times cr 255))"
    using Math_round_unit [OF assms(1,2)] js_times_unit [OF assms(1,2)]
    by (simp add: toHex_byte Math_round_nonneg)
  have rg: "toHex (Math_round (js_times cg 255)) = hex2 (round_half_away (js_times cg 255))"
    using Math_round_unit [OF assms(3,4)] js_times_unit [OF assms(3,4)]
    by (simp add: toHex_byte Math_round_nonneg)
  have rb: "toHex (Math_round (js_times cb 255)) = hex2 (round_half_away (js_times cb 255))"
    using Math_round_unit [OF assms(5,6)] js_times_unit [OF assms(5,6)]
    by (simp add: toHex_byte Math_round_nonneg)
  have al: "Math_round (js_times op 255) < 255 \<Longrightarrow>
      toHex (Math_round (js_times op 255)) = hex2 (round_half_away (js_times op 255))"
    using a0 ra by (simp add: toHex_byte)
  have hex: "rgba (rgbaToHex (Some (RGB cr cg cb)) (Some op)) =
           ''#'' @ hex2 (round_half_away (js_times cr 255))
             @ hex2 (round_half_away (js_times cg 255))
             @ hex2 (round_half_away (js_times cb 255))
             @ (if round_half_away (js_times op 255) < 255
                then hex2 (round_half_away (js_times op 255)) else [])"
    unfolding rgbaToHex_def Let_def using rr rg rb al ra by simp
  have eff: "effectiveOpacity p n =
             (case popacity p of
                Some v \<Rightarrow> v
              | None \<Rightarrow> (case opacity (attrs n) of Some v \<Rightarrow> v | None \<Rightarrow> 1))"
    by (simp add: effectiveOpacity_def)
  have key: "visible p \<noteq> Some False \<and> ptype p = Some ''SOLID'' \<and> color p \<noteq> None \<longrightarrow>
              paint_step n p m =
                bump m (rgba (rgbaToHex (color p) (Some (effectiveOpacity p n))))"
    by (simp add: paint_step_def)
  from hex eff key show ?thesis by blast
qed

text \<open>
  Red at opacity 1 is "#FF0000", red at opacity 0.5 is "#FF000080"; the second is the
  palette key of a red paint without an opacity of its own on a node of opacity 0.5.
  The JSON number 0.7 is the double \<open>seventenths\<close>, a little below 0.7: its product with
  255 is the double 178.5, the byte is 179 and the red channel reads "B3".
\<close>

theorem rgbaToHex_canonical_witness:
  "rgba (rgbaToHex (Some (RGB 1 0 0)) (Some 1)) = ''#FF0000''
   \<and> rgba (rgbaToHex (Some (RGB 1 0 0)) (Some (1 / 2))) = ''#FF000080''
   \<and> to_double seventenths = seventenths \<and> js_times seventenths 255 = 357 / 2
   \<and> rgba (rgbaToHex (Some (RGB seventenths 0 0)) (Some 1)) = ''#B30000''
   \<and> effectiveOpacity solidRed halfNode = 1 / 2
   \<and> paint_step halfNode solidRed [] = [(''#FF000080'', 1)]"
proof -
  have h: "(0::real) \<le> 1" "(1::real) \<le> 1" "(0::real) \<le> 0" "(0::real) \<le> 1"
    "(0::real) \<le> 1 / 2" by simp_all
  have s: "0 \<le> seventenths" "seventenths \<le> 1" by (simp_all add: seventenths_def)
  have hx: "hex2 255 = ''FF''" "hex2 0 = ''00''" "hex2 128 = ''80''" "hex2 179 = ''B3''"
    by (simp_all add: hex2_def)
  have pr: "js_times 1 255 = 255" "js_times 0 255 = 0" "js_times (1 / 2) 255 = 255 / 2"
    by (simp_all add: double_defs)
  have p7: "js_times seventenths 255 = 357 / 2"
    by (simp add: seventenths_def double_defs)
  have d7: "to_double seventenths = seventenths"
    by (simp add: seventenths_def double_defs)
  note full = rgbaToHex_canonical [OF h(1) h(2) h(3) h(4) h(3) h(4) h(1),
      of solidRed halfNode "[]"]
  note half = rgbaToHex_canonical [OF h(1) h(2) h(3) h(4) h(3) h(4) h(5),
      of solidRed halfNode "[]"]
  note seven = rgbaToHex_canonical [OF s(1) s(2) h(3) h(4) h(3) h(4) h(1),
      of solidRed halfNode "[]"]
  have one: "rgba (rgbaToHex (Some (RGB 1 0 0)) (Some 1)) = ''#FF0000''"
    using full [THEN conjunct1] unfolding pr by (simp add: round_half_away_def hx)
  have two: "rgba (rgbaToHex (Some (RGB 1 0 0)) (Some (1 / 2))) = ''#FF000080''"
    using half [THEN conjunct1] unfolding pr by (simp add: round_half_away_def hx)
  have three: "rgba (rgbaToHex (Some (RGB seventenths 0 0)) (Some 1)) = ''#B30000''"
    using seven [THEN conjunct1] unfolding pr p7 by (simp add: round_half_away_def hx)
  have e0: "effectiveOpacity solidRed halfNode =
      (case popacity solidRed of
         Some v \<Rightarrow> v
       | None \<Rightarrow> (case opacity (attrs halfNode) of Some v \<Rightarrow> v | None \<Rightarrow> 1))"
    using half by blast
  have eff: "effectiveOpacity solidRed halfNode = 1 / 2"
    unfolding e0 by (simp add: solidRed_def halfNode_def blank_def)
  have pre: "visible solidRed \<noteq> Some False \<and> ptype solidRed = Some ''SOLID'' \<and>
      color solidRed \<noteq> None"
    by (simp add: solidRed_def)
  have col: "color solidRed = Some (RGB 1 0 0)" by (simp add: solidRed_def)
  have key0: "paint_step halfNode solidRed [] =
      bump [] (rgba (rgbaToHex (color solidRed) (Some (effectiveOpacity solidRed halfNode))))"
    using half pre by blast
  have key: "paint_step halfNode solidRed [] = [(''#FF000080'', 1)]"
    unfolding key0 eff col two by (simp add: bump_def)
  from one two d7 p7 three eff key show ?thesis by blast
qed

section \<open>The component-usage report\<close>

lemma fold_traverse_kids:
  assumes "\<And>k s. k \<in> set ks \<Longrightarrow> traverse visit k s = fold visit (preorder k) s"
  shows "fold (traverse visit) ks s = fold visit (concat (map preorder ks)) s"
  using assms by (induction ks arbitrary: s) simp_all

lemma traverse_preorder: "traverse visit n s = fold visit (preorder n) s"
proof (induction n arbitrary: s)
  case (Node a ks)
  have "fold (traverse visit) ks (visit (Node a ks) s)
          = fold visit (concat (map preorder ks)) (visit (Node a ks) s)"
    by (rule fold_traverse_kids) (rule Node.IH)
  then show ?case by simp
qed

lemma map_of_map_set: "map_of (map_set m k v) = (map_of m)(k \<mapsto> v)"
  by (induction m) (auto simp: fun_eq_iff)

lemma keys_map_set: "fst ` set (map_set m k v) = insert k (fst ` set m)"
  by (induction m k v rule: map_set.induct) (force+)

lemma distinct_map_set: "distinct (map fst m) \<Longrightarrow> distinct (map fst (map_set m k v))"
  by (induction m) (auto simp: keys_map_set)

lemma count_in_bump: "count_in (bump m k) k' = (if k' = k then count_in m k + 1 else count_in m k')"
  by (simp add: count_in_def bump_def map_of_map_set)

lemma count_in_count_instance:
  "count_in (count_instance n m) cid = count_in m cid + (if is_instance_of cid n then 1 else 0)"
  by (auto simp: count_instance_def is_instance_of_def count_in_bump split: option.split)

lemma keys_count_instance:
  "fst ` set (count_instance n m) = fst ` set m \<union> {cid. is_instance_of cid n}"
  by (auto simp: count_instance_def is_instance_of_def bump_def keys_map_set split: option.split)

lemma distinct_count_instance:
  "distinct (map fst m) \<Longrightarrow> distinct (map fst (count_instance n m))"
  by (simp add: count_instance_def bump_def distinct_map_set split: option.split)

lemma count_in_fold:
  "count_in (fold count_instance ns m) cid = count_in m cid + length (filter (is_instance_of cid) ns)"
  by (induction ns arbitrary: m) (simp_all add: count_in_count_instance)

lemma keys_fold:
  "fst ` set (fold count_instance ns m) = fst ` set m \<union> {cid. \<exists>n \<in> set ns. is_instance_of cid n}"
  by (induction ns arbitrary: m) (auto simp: keys_count_instance)

lemma distinct_fold:
  "distinct (map fst m) \<Longrightarrow> distinct (map fst (fold count_instance ns m))"
  by (induction ns arbitrary: m) (simp_all add: distinct_count_instance)

text \<open>The map of counts after the traversal of a page.\<close>

lemma counts_of_page:
  fixes page :: node
  defines "cs \<equiv> traverse count_instance page []"
  shows "distinct (map fst cs)"
    and "fst ` set cs = {cid. 0 < instance_count page cid}"
    and "(cid, c) \<in> set cs \<Longrightarrow> c = instance_count page cid"
proof -
  have cs: "cs = fold count_instance (preorder page) []"
    by (simp add: cs_def traverse_preorder)
  show d: "distinct (map fst cs)" unfolding cs by (rule distinct_fold) simp
  show "fst ` set cs = {cid. 0 < instance_count page cid}"
    unfolding cs keys_fold instance_count_def by (auto simp: filter_empty_conv)
  assume "(cid, c) \<in> set cs"
  then have "map_of cs cid = Some c" using d by simp
  then have "count_in cs cid = c" by (simp add: count_in_def)
  then show "c = instance_count page cid"
    unfolding cs count_in_fold instance_count_def by (simp add: count_in_def)
qed

lemma set_insert_cmp: "set (insert_cmp cmp x ys) = insert x (set ys)"
  by (induction ys) auto

lemma set_array_sort: "set (array_sort cmp xs) = set xs"
  by (induction xs) (simp_all add: array_sort_def set_insert_cmp)

lemma distinct_map_insert_cmp:
  "distinct (map f (insert_cmp cmp x ys)) = (f x \<notin> f ` set ys \<and> distinct (map f ys))"
  by (induction ys) (auto simp: set_insert_cmp)

lemma distinct_map_array_sort:
  "distinct (map f (array_sort cmp xs)) = distinct (map f xs)"
  by (induction xs) (simp_all add: array_sort_def distinct_map_insert_cmp set_array_sort[unfolded array_sort_def])

lemma sorted_insert_cmp:
  assumes le: "\<And>a b. (cmp a b \<le> 0) = le a b"
    and total: "\<And>a b. \<not> le a b \<Longrightarrow> le b a"
    and trans: "\<And>a b c. le a b \<Longrightarrow> le b c \<Longrightarrow> le a c"
  shows "sorted_wrt le ys \<Longrightarrow> sorted_wrt le (insert_cmp cmp x ys)"
proof (induction ys)
  case Nil
  then show ?case by simp
next
  case (Cons y ys)
  show ?case
  proof (cases "le x y")
    case True
    then have "\<forall>z \<in> set (y # ys). le x z" using Cons.prems trans by auto
    then show ?thesis using True Cons.prems by (simp add: le)
  next
    case False
    then have "le y x" by (rule total)
    then have "\<forall>z \<in> set (insert_cmp cmp x ys). le y z"
      using Cons.prems by (auto simp: set_insert_cmp)
    moreover have "sorted_wrt le (insert_cmp cmp x ys)" using Cons by simp
    ultimately show ?thesis using False by (simp add: le)
  qed
qed

lemma sorted_array_sort:
  assumes "\<And>a b. (cmp a b \<le> 0) = le a b"
    and "\<And>a b. \<not> le a b \<Longrightarrow> le b a"
    and "\<And>a b c. le a b \<Longrightarrow> le b c \<Longrightarrow> le a c"
  shows "sorted_wrt le (array_sort cmp xs)"
proof (induction xs)
  case Nil
  then show ?case by (simp add: array_sort_def)
next
  case (Cons x xs)
  have "sorted_wrt le (insert_cmp cmp x (array_sort cmp xs))"
    using assms Cons by (rule sorted_insert_cmp)
  then show ?case by (simp add: array_sort_def)
qed

lemma usage_cmp_order: "(usage_cmp lc a b \<le> 0) = usage_order lc a b"
  by (auto simp: usage_cmp_def usage_order_def)

lemma usage_order_total:
  assumes "consistent_compare lc" "\<not> usage_order lc a b"
  shows "usage_order lc b a"
proof -
  have "\<And>x y. 0 < lc x y \<Longrightarrow> lc y x < 0" using assms(1) by (simp add: consistent_compare_def)
  then show ?thesis using assms(2) unfolding usage_order_def
    by (metis linorder_neqE_nat not_le order.strict_implies_order)
qed

lemma usage_order_trans:
  assumes "consistent_compare lc" "usage_order lc a b" "usage_order lc b c"
  shows "usage_order lc a c"
proof -
  have tr: "\<And>x y z. lc x y \<le> 0 \<Longrightarrow> lc y z \<le> 0 \<Longrightarrow> lc x z \<le> 0"
    using assms(1) unfolding consistent_compare_def by blast
  show ?thesis using assms(2,3) unfolding usage_order_def
    by (auto intro: tr)
qed

text \<open>
  Claim C5. With a consistent \<open>localeCompare\<close>, the usage list of a page has one entry
  for every component id carried by an INSTANCE node that the traversal of the page
  visits, and no other entry; the count of an entry is the number of those INSTANCE nodes
  with its id; its name is the name the dictionary gives the id, or "(unknown component)"
  when the dictionary has no name for it; the entries are in descending order of their
  counts and, where the counts are equal, in ascending order of their names. The report
  holds this list for every page of the document, in the order of the pages.
\<close>

theorem componentsUsed_counts_sorted:
  assumes "consistent_compare lc"
  shows "distinct (map used_componentId (componentsUsed lc componentById page))
     \<and> set (map used_componentId (componentsUsed lc componentById page))
         = {cid. 0 < instance_count page cid}
     \<and> (\<forall>u \<in> set (componentsUsed lc componentById page).
           used_count u = instance_count page (used_componentId u) \<and>
           used_name u = display_name componentById (used_componentId u))
     \<and> sorted_wrt (usage_order lc) (componentsUsed lc componentById page)
     \<and> map up_componentsUsed (ur_pages (analyze_components lc fkey file))
         = map (componentsUsed lc (componentById_of file)) (kids (document file))"
proof -
  define cs where "cs = traverse count_instance page []"
  have cu: "componentsUsed lc componentById page
              = array_sort (usage_cmp lc) (map (to_usage componentById) cs)"
    by (simp add: componentsUsed_def cs_def)
  have ids: "map used_componentId (map (to_usage componentById) cs) = map fst cs"
    by (simp add: to_usage_def comp_def)
  have d: "distinct (map used_componentId (componentsUsed lc componentById page))"
    unfolding cu distinct_map_array_sort ids unfolding cs_def by (rule counts_of_page(1))
  have s: "set (map used_componentId (componentsUsed lc componentById page))
         = {cid. 0 < instance_count page cid}"
  proof -
    have "set (map used_componentId (componentsUsed lc componentById page))
            = set (map used_componentId (map (to_usage componentById) cs))"
      unfolding cu by (simp only: set_map set_array_sort)
    also have "\<dots> = fst ` set cs" unfolding ids by simp
    finally show ?thesis unfolding cs_def counts_of_page(2) .
  qed
  have e: "\<forall>u \<in> set (componentsUsed lc componentById page).
           used_count u = instance_count page (used_componentId u) \<and>
           used_name u = display_name componentById (used_componentId u)"
  proof
    fix u assume "u \<in> set (componentsUsed lc componentById page)"
    then obtain cid c where cc: "(cid, c) \<in> set cs" and u: "u = to_usage componentById (cid, c)"
      unfolding cu set_array_sort by auto
    have "c = instance_count page cid" using cc unfolding cs_def by (rule counts_of_page(3))
    then show "used_count u = instance_count page (used_componentId u) \<and>
           used_name u = display_name componentById (used_componentId u)"
      unfolding u by (simp add: to_usage_def display_name_def split: option.split)
  qed
  have o: "sorted_wrt (usage_order lc) (componentsUsed lc componentById page)"
    unfolding cu
    by (rule sorted_array_sort [OF usage_cmp_order usage_order_total [OF assms]
          usage_order_trans [OF assms]])
  have rp: "map up_componentsUsed (ur_pages (analyze_components lc fkey file))
         = map (componentsUsed lc (componentById_of file)) (kids (document file))"
    by (simp add: analyze_components_def comp_def)
  from d s e o rp show ?thesis by blast
qed

lemma consistent_codeCompare: "consistent_compare codeCompare"
  unfolding consistent_compare_def codeCompare_def by (auto split: if_splits)

text \<open>
  The page with four instances of A, two of B and one of an unknown component: A with 4,
  B with 2, the unknown component with 1, in this order.
\<close>

theorem componentsUsed_counts_sorted_witness:
  "consistent_compare codeCompare
   \<and> componentsUsed codeCompare dictAB pageAB = usageAB
   \<and> instance_count pageAB ''1:1'' = 4 \<and> instance_count pageAB ''1:2'' = 2
   \<and> instance_count pageAB ''7:7'' = 1
   \<and> sorted_wrt (usage_order codeCompare) usageAB"
proof -
  have ev: "componentsUsed codeCompare dictAB pageAB = usageAB"
    by (simp add: componentsUsed_def pageAB_def inst_def dictAB_def usageAB_def blank_def
        someMeta_def count_instance_def bump_def to_usage_def array_sort_def usage_cmp_def)
  note t = componentsUsed_counts_sorted [OF consistent_codeCompare, of dictAB pageAB]
  have u: "\<forall>u \<in> set usageAB. used_count u = instance_count pageAB (used_componentId u)"
    using t unfolding ev by blast
  have c: "instance_count pageAB ''1:1'' = 4 \<and> instance_count pageAB ''1:2'' = 2
      \<and> instance_count pageAB ''7:7'' = 1"
    using u by (simp add: usageAB_def)
  have s: "sorted_wrt (usage_order codeCompare) usageAB"
    using t unfolding ev by blast
  from consistent_codeCompare ev c s show ?thesis by blast
qed

section \<open>Following the parent references on a linked store\<close>

lemma chain_refs_page: "length r \<le> length page \<Longrightarrow> chain_refs page r = []"
  by (simp add: chain_refs_def)

lemma chain_refs_step:
  assumes "length page < length r"
  shows "chain_refs page r = r # chain_refs page (butlast r)"
proof -
  have up: "[Suc (length page) ..< Suc (length r)] = [Suc (length page) ..< length r] @ [length r]"
    using assms by simp
  have "map (\<lambda>k. take k r) (rev [Suc (length page) ..< length r])
          = map (\<lambda>k. take k (butlast r)) (rev [Suc (length page) ..< length r])"
    by (rule map_cong) (auto simp: butlast_conv_take min_def)
  moreover have "Suc (length (butlast r)) = length r" using assms by simp
  ultimately show ?thesis
    unfolding chain_refs_def up by simp
qed

lemma linked_page_eq:
  assumes "linked hp page r" "length r \<le> length page"
  shows "r = page"
  using assms unfolding linked_def by (metis take_all)

lemma linked_read:
  assumes "linked hp page r" "length page < length r"
  shows "read_parent hp r = Ref (butlast r)"
proof -
  have "hp (take (length r) r) = Some (Ref (take (length r - 1) r))"
    using assms unfolding linked_def by blast
  then show ?thesis by (simp add: read_parent_def butlast_conv_take)
qed

lemma linked_butlast:
  assumes "linked hp page r" "length page < length r"
  shows "linked hp page (butlast r)"
proof -
  have le: "length page \<le> length r - 1" using assms(2) by simp
  have "take (length page) (butlast r) = take (length page) r"
    using le by (simp add: butlast_conv_take min_def)
  then have p: "take (length page) (butlast r) = page"
    using assms(1) unfolding linked_def by simp
  have "hp (take k (butlast r)) = Some (Ref (take (k - 1) (butlast r)))"
    if "length page < k" "k \<le> length (butlast r)" for k
  proof -
    have k: "k \<le> length r - 1" using that by simp
    then have "hp (take k r) = Some (Ref (take (k - 1) r))"
      using assms that unfolding linked_def by simp
    then show ?thesis using k by (simp add: butlast_conv_take min_def)
  qed
  then show ?thesis using p unfolding linked_def by blast
qed

lemma linked_neq_page:
  assumes "linked hp page r" "length page < length r"
  shows "r \<noteq> page"
  using assms by auto

text \<open>On a linked store the loop ends, after one round for every address of the chain.\<close>

lemma parent_loop_linked:
  "linked hp page r \<Longrightarrow>
     parent_loop body hp page (Ref r) acc = Some (fold body (chain_refs page r) acc)"
proof (induction "length r" arbitrary: r acc)
  case 0
  then have "r = page" using linked_page_eq by fastforce
  then show ?case
    by (subst parent_loop.simps) (simp add: chain_refs_page)
next
  case (Suc d)
  show ?case
  proof (cases "length page < length r")
    case False
    then have "r = page" using Suc.prems linked_page_eq by fastforce
    then show ?thesis
      by (subst parent_loop.simps) (simp add: chain_refs_page)
  next
    case True
    have d: "d = length (butlast r)" using Suc.hyps(2) by simp
    have nxt: "parent_loop body hp page (Ref (butlast r)) (body r acc)
                 = Some (fold body (chain_refs page (butlast r)) (body r acc))"
      using Suc.hyps(1) [OF d linked_butlast [OF Suc.prems True]] .
    have "parent_loop body hp page (Ref r) acc
            = parent_loop body hp page (read_parent hp r) (body r acc)"
      using linked_neq_page [OF Suc.prems True] by (subst parent_loop.simps) simp
    then show ?thesis
      unfolding linked_read [OF Suc.prems True] nxt chain_refs_step [OF True] by simp
  qed
qed

lemma makePath_linked:
  "linked hp page r \<Longrightarrow> makePath doc hp page pgName r = Some (path_of doc page pgName r)"
  by (simp add: makePath_def path_of_def parent_loop_linked)

lemma makePath_inspect_linked:
  "linked hp page r \<Longrightarrow>
     makePath_inspect doc hp page pgName r = Some (path_inspect_of doc page pgName r)"
  by (simp add: makePath_inspect_def path_inspect_of_def parent_loop_linked)

text \<open>The visitors on a store that is linked once the parent is written.\<close>

lemma visit_ui_linked:
  assumes "linked (hp(r \<mapsto> parent)) page r"
  shows "visit_ui componentById doc page pgName n r parent (ls, hp)
           = Some (ui_pure componentById doc page pgName n r ls, hp(r \<mapsto> parent))"
proof -
  have mp: "makePath doc (hp(r \<mapsto> parent)) page pgName r = Some (path_of doc page pgName r)"
    using assms by (rule makePath_linked)
  have st: "visit_structural doc page pgName n r (ls, hp(r \<mapsto> parent))
      = Some (case classifyStructuralUi n of
                None \<Rightarrow> ls
              | Some k \<Rightarrow>
                  push_item (Some k)
                    \<lparr>item_name = str_or (name (attrs n)) (kind_str k),
                     item_path = path_of doc page pgName r\<rparr> ls,
              hp(r \<mapsto> parent))"
    unfolding visit_structural_def by (simp add: mp split: option.split)
  show ?thesis
  proof (cases "type (attrs n) = Some ''INSTANCE'' \<and> componentId (attrs n) \<noteq> None")
    case False
    then show ?thesis unfolding visit_ui_def ui_pure_def Let_def using st by auto
  next
    case True
    then show ?thesis unfolding visit_ui_def ui_pure_def Let_def using st
      by (simp add: mp)
  qed
qed

lemma visit_button_linked:
  assumes "linked (hp(r \<mapsto> parent)) page r"
  shows "visit_button doc page pgName n r parent (acc, hp)
           = Some (button_pure doc page pgName n r acc, hp(r \<mapsto> parent))"
  unfolding visit_button_def button_pure_def Let_def
  by (simp add: makePath_inspect_linked [OF assms])

lemma visit_card_linked:
  assumes "linked (hp(r \<mapsto> parent)) page r"
  shows "visit_card doc page pgName n r parent (acc, hp)
           = Some (card_pure doc page pgName n r acc, hp(r \<mapsto> parent))"
  unfolding visit_card_def card_pure_def Let_def
  by (simp add: makePath_inspect_linked [OF assms] parent_loop_linked [OF assms])

section \<open>The traversal of a page on the store\<close>

lemma in_subtree_self: "in_subtree n r r"
  by (simp add: in_subtree_def)

lemma in_subtree_longer: "in_subtree k (r @ [i]) a \<Longrightarrow> length r < length a"
proof -
  assume "in_subtree k (r @ [i]) a"
  then have "take (Suc (length r)) a = r @ [i]" by (simp add: in_subtree_def)
  then have "length (take (Suc (length r)) a) = Suc (length r)" by simp
  then show ?thesis by (simp add: min_def split: if_splits)
qed

lemma in_subtree_butlast:
  assumes "in_subtree k (r @ [i]) a"
  shows "(a = r @ [i] \<longrightarrow> butlast a = r) \<and> a \<noteq> r"
  using in_subtree_longer [OF assms] by auto

lemma in_subtree_Node:
  "in_subtree n r a \<longleftrightarrow> (a = r \<or> (\<exists>j < length (kids n). in_subtree (kids n ! j) (r @ [j]) a))"
proof
  assume u: "in_subtree n r a"
  then have pre: "take (length r) a = r" and nd: "node_at n (drop (length r) a) \<noteq> None"
    by (simp_all add: in_subtree_def)
  have a: "a = r @ drop (length r) a" using pre by (metis append_take_drop_id)
  show "a = r \<or> (\<exists>j < length (kids n). in_subtree (kids n ! j) (r @ [j]) a)"
  proof (cases "drop (length r) a")
    case Nil
    then show ?thesis using a by simp
  next
    case (Cons j p)
    then have j: "j < length (kids n)" and np: "node_at (kids n ! j) p \<noteq> None"
      using nd by (auto split: if_splits)
    have a2: "(r @ [j]) @ p = a" using a Cons by simp
    have e: "r @ [j] = take (length (r @ [j])) a \<and> p = drop (length (r @ [j])) a"
      using a2 unfolding append_eq_conv_conj .
    have "in_subtree (kids n ! j) (r @ [j]) a"
      unfolding in_subtree_def e [THEN conjunct1, symmetric] e [THEN conjunct2, symmetric]
      using np by simp
    then show ?thesis using j by blast
  qed
next
  assume "a = r \<or> (\<exists>j < length (kids n). in_subtree (kids n ! j) (r @ [j]) a)"
  then show "in_subtree n r a"
  proof
    assume "a = r" then show ?thesis by (simp add: in_subtree_self)
  next
    assume "\<exists>j < length (kids n). in_subtree (kids n ! j) (r @ [j]) a"
    then obtain j where j: "j < length (kids n)" and u: "in_subtree (kids n ! j) (r @ [j]) a"
      by blast
    define p where "p = drop (Suc (length r)) a"
    have tk: "take (Suc (length r)) a = r @ [j]" using u by (simp add: in_subtree_def)
    have np: "node_at (kids n ! j) p \<noteq> None" using u by (simp add: in_subtree_def p_def)
    have "take (Suc (length r)) a @ p = a" unfolding p_def by (rule append_take_drop_id)
    then have a: "r @ (j # p) = a" unfolding tk by simp
    have e: "r = take (length r) a \<and> j # p = drop (length r) a"
      using a unfolding append_eq_conv_conj .
    show ?thesis
      unfolding in_subtree_def e [THEN conjunct1, symmetric] e [THEN conjunct2, symmetric]
      using j np by simp
  qed
qed

text \<open>A store that differs from a linked one only below \<open>r\<close> is linked.\<close>

lemma linked_cong:
  assumes "linked hp page r" "\<And>a. length a \<le> length r \<Longrightarrow> hp' a = hp a"
  shows "linked hp' page r"
  using assms unfolding linked_def by simp

lemma linked_child:
  assumes "linked hp page r"
  shows "linked (hp(r @ [i] \<mapsto> Ref r)) page (r @ [i])"
proof -
  have "length (take (length page) r) = length page" using assms unfolding linked_def by simp
  then have le: "length page \<le> length r" by simp
  have p: "take (length page) (r @ [i]) = page" using assms le unfolding linked_def by simp
  have "(hp(r @ [i] \<mapsto> Ref r)) (take k (r @ [i])) = Some (Ref (take (k - 1) (r @ [i])))"
    if "length page < k" "k \<le> length (r @ [i])" for k
  proof (cases "k \<le> length r")
    case True
    then have "take k (r @ [i]) = take k r" "take (k - 1) (r @ [i]) = take (k - 1) r" by simp_all
    moreover have "take k r \<noteq> r @ [i]"
    proof
      assume "take k r = r @ [i]"
      then have "length (take k r) = length (r @ [i])" by simp
      then show False by simp
    qed
    moreover have "hp (take k r) = Some (Ref (take (k - 1) r))"
      using assms that True unfolding linked_def by simp
    ultimately show ?thesis by simp
  next
    case False
    then have "k = Suc (length r)" using that by simp
    then show ?thesis by simp
  qed
  then show ?thesis using p unfolding linked_def by blast
qed

text \<open>
  The traversal of a subtree with a visitor that, on a linked store, writes the parent and
  changes its accumulator by \<open>f\<close>: it ends, the accumulator is the one of the traversal
  without a store, and the store has changed on the nodes of the subtree only, each of
  which carries its parent.
\<close>

lemma traverse_kids_linked:
  assumes node: "\<And>k r parent acc hp. k \<in> set ks \<Longrightarrow> linked (hp(r \<mapsto> parent)) page r \<Longrightarrow>
      traverse_p visit k r parent (acc, hp)
        = Some (ptrav f k r acc,
                \<lambda>a. if in_subtree k r a then Some (if a = r then parent else Ref (butlast a))
                     else hp a)"
    and lk: "linked hp page r"
  shows "traverse_kids visit ks r i (acc, hp)
           = Some (ptrav_kids f ks r i acc,
                   \<lambda>a. if (\<exists>j < length ks. in_subtree (ks ! j) (r @ [i + j]) a)
                        then Some (Ref (butlast a)) else hp a)"
  using node lk
proof (induction ks arbitrary: i acc hp)
  case Nil
  then show ?case by simp
next
  case (Cons k ks)
  define hp1 where "hp1 = (\<lambda>a. if in_subtree k (r @ [i]) a
      then Some (if a = r @ [i] then Ref r else Ref (butlast a)) else hp a)"
  have first: "traverse_p visit k (r @ [i]) (Ref r) (acc, hp)
                 = Some (ptrav f k (r @ [i]) acc, hp1)"
    unfolding hp1_def
    by (rule Cons.prems(1), simp, rule linked_child [OF Cons.prems(2)])
  have lk1: "linked hp1 page r"
  proof (rule linked_cong [OF Cons.prems(2)])
    fix a :: ref assume "length a \<le> length r"
    then have "\<not> in_subtree k (r @ [i]) a" using in_subtree_longer by fastforce
    then show "hp1 a = hp a" by (simp add: hp1_def)
  qed
  have rest: "traverse_kids visit ks r (Suc i) (ptrav f k (r @ [i]) acc, hp1)
      = Some (ptrav_kids f ks r (Suc i) (ptrav f k (r @ [i]) acc),
              \<lambda>a. if (\<exists>j < length ks. in_subtree (ks ! j) (r @ [Suc i + j]) a)
                   then Some (Ref (butlast a)) else hp1 a)"
    by (rule Cons.IH) (simp_all add: Cons.prems(1) lk1)
  have heap: "(\<lambda>a. if (\<exists>j < length ks. in_subtree (ks ! j) (r @ [Suc i + j]) a)
                   then Some (Ref (butlast a)) else hp1 a)
            = (\<lambda>a. if (\<exists>j < length (k # ks). in_subtree ((k # ks) ! j) (r @ [i + j]) a)
                   then Some (Ref (butlast a)) else hp a)"
  proof
    fix a
    have ex: "(\<exists>j < length (k # ks). in_subtree ((k # ks) ! j) (r @ [i + j]) a)
          \<longleftrightarrow> in_subtree k (r @ [i]) a \<or> (\<exists>j < length ks. in_subtree (ks ! j) (r @ [Suc i + j]) a)"
    proof
      assume "\<exists>j < length (k # ks). in_subtree ((k # ks) ! j) (r @ [i + j]) a"
      then obtain j where j: "j < length (k # ks)" "in_subtree ((k # ks) ! j) (r @ [i + j]) a"
        by blast
      show "in_subtree k (r @ [i]) a \<or> (\<exists>j < length ks. in_subtree (ks ! j) (r @ [Suc i + j]) a)"
      proof (cases j)
        case 0
        then show ?thesis using j by simp
      next
        case (Suc j')
        then have "j' < length ks" "in_subtree (ks ! j') (r @ [Suc i + j']) a" using j by simp_all
        then show ?thesis by blast
      qed
    next
      assume "in_subtree k (r @ [i]) a \<or> (\<exists>j < length ks. in_subtree (ks ! j) (r @ [Suc i + j]) a)"
      then show "\<exists>j < length (k # ks). in_subtree ((k # ks) ! j) (r @ [i + j]) a"
      proof
        assume "in_subtree k (r @ [i]) a"
        then have "0 < length (k # ks) \<and> in_subtree ((k # ks) ! 0) (r @ [i + 0]) a" by simp
        then show ?thesis by blast
      next
        assume "\<exists>j < length ks. in_subtree (ks ! j) (r @ [Suc i + j]) a"
        then obtain j where "j < length ks" "in_subtree (ks ! j) (r @ [Suc i + j]) a" by blast
        then have "Suc j < length (k # ks) \<and> in_subtree ((k # ks) ! Suc j) (r @ [i + Suc j]) a"
          by simp
        then show ?thesis by blast
      qed
    qed
    show "(if (\<exists>j < length ks. in_subtree (ks ! j) (r @ [Suc i + j]) a)
                   then Some (Ref (butlast a)) else hp1 a)
            = (if (\<exists>j < length (k # ks). in_subtree ((k # ks) ! j) (r @ [i + j]) a)
                   then Some (Ref (butlast a)) else hp a)"
      unfolding ex hp1_def using in_subtree_butlast [of k r i a] by auto
  qed
  show ?case
    using first rest unfolding heap by simp
qed

lemma traverse_p_linked:
  assumes vis: "\<And>n r parent acc hp. linked (hp(r \<mapsto> parent)) page r \<Longrightarrow>
      visit n r parent (acc, hp) = Some (f n r acc, hp(r \<mapsto> parent))"
  shows "linked (hp(r \<mapsto> parent)) page r \<Longrightarrow>
      traverse_p visit n r parent (acc, hp)
        = Some (ptrav f n r acc,
                \<lambda>a. if in_subtree n r a then Some (if a = r then parent else Ref (butlast a))
                     else hp a)"
proof (induction n arbitrary: r parent acc hp)
  case (Node av ks)
  have v: "visit (Node av ks) r parent (acc, hp) = Some (f (Node av ks) r acc, hp(r \<mapsto> parent))"
    using Node.prems by (rule vis)
  have kd: "traverse_kids visit ks r 0 (f (Node av ks) r acc, hp(r \<mapsto> parent))
      = Some (ptrav_kids f ks r 0 (f (Node av ks) r acc),
              \<lambda>a. if (\<exists>j < length ks. in_subtree (ks ! j) (r @ [0 + j]) a)
                   then Some (Ref (butlast a)) else (hp(r \<mapsto> parent)) a)"
  proof (rule traverse_kids_linked [where page = page])
    show "linked (hp(r \<mapsto> parent)) page r" by (rule Node.prems)
  next
    fix k r' parent' acc' hp'
    assume "k \<in> set ks" "linked (hp'(r' \<mapsto> parent')) page r'"
    then show "traverse_p visit k r' parent' (acc', hp')
        = Some (ptrav f k r' acc',
                \<lambda>a. if in_subtree k r' a then Some (if a = r' then parent' else Ref (butlast a))
                     else hp' a)"
      by (rule Node.IH)
  qed
  have heap: "(\<lambda>a. if (\<exists>j < length ks. in_subtree (ks ! j) (r @ [0 + j]) a)
                   then Some (Ref (butlast a)) else (hp(r \<mapsto> parent)) a)
      = (\<lambda>a. if in_subtree (Node av ks) r a then Some (if a = r then parent else Ref (butlast a))
              else hp a)"
  proof
    fix a
    have nr: "(\<exists>j < length ks. in_subtree (ks ! j) (r @ [j]) a) \<Longrightarrow> a \<noteq> r"
      using in_subtree_butlast by blast
    show "(if (\<exists>j < length ks. in_subtree (ks ! j) (r @ [0 + j]) a)
                   then Some (Ref (butlast a)) else (hp(r \<mapsto> parent)) a)
      = (if in_subtree (Node av ks) r a then Some (if a = r then parent else Ref (butlast a))
              else hp a)"
      using nr by (auto simp: in_subtree_Node [of "Node av ks" r a])
  qed
  show ?case using v kd unfolding heap by simp
qed

section \<open>The reports that write the parent references\<close>

lemma written_page:
  assumes "in_subtree p [i] a"
  shows "(if a = [i] then Undefined else Ref (butlast a)) = written a"
proof -
  have "take (Suc 0) a = [i]" using assms by (simp add: in_subtree_def)
  then have "a \<noteq> []" by auto
  then have "(a = [i]) = (length a \<le> 1)"
    using \<open>take (Suc 0) a = [i]\<close> by (cases a) auto
  then show ?thesis by (simp add: written_def)
qed

text \<open>
  The traversal of a page from any store: the page gets \<open>undefined\<close> as its parent, every
  other node of the page its parent.
\<close>

lemma traverse_page:
  assumes vis: "\<And>n r parent acc hp. linked (hp(r \<mapsto> parent)) [i] r \<Longrightarrow>
      visit n r parent (acc, hp) = Some (f n r acc, hp(r \<mapsto> parent))"
  shows "traverse_p visit p [i] Undefined (acc, hp)
           = Some (ptrav f p [i] acc,
                   \<lambda>a. if in_subtree p [i] a then Some (written a) else hp a)"
proof -
  have lk: "linked (hp([i] \<mapsto> Undefined)) [i] [i]" by (simp add: linked_def)
  have "(\<lambda>a. if in_subtree p [i] a
              then Some (if a = [i] then Undefined else Ref (butlast a)) else hp a)
        = (\<lambda>a. if in_subtree p [i] a then Some (written a) else hp a)"
    by (rule ext) (simp add: written_page)
  then show ?thesis
    using traverse_p_linked [where visit = visit and f = f and page = "[i]", OF vis lk] by simp
qed

lemma for_pages_pure:
  assumes step: "\<And>i p acc hp. step i p (acc, hp)
      = Some (g i p acc, \<lambda>a. if in_subtree p [i] a then Some (written a) else hp a)"
  shows "for_pages step ps i (acc, hp)
           = Some (pfor g ps i acc,
                   \<lambda>a. if (\<exists>j < length ps. in_subtree (ps ! j) [i + j] a)
                        then Some (written a) else hp a)"
proof (induction ps arbitrary: i acc hp)
  case Nil
  then show ?case by simp
next
  case (Cons p ps)
  have ex: "(\<exists>j < length (p # ps). in_subtree ((p # ps) ! j) [i + j] a)
        \<longleftrightarrow> in_subtree p [i] a \<or> (\<exists>j < length ps. in_subtree (ps ! j) [Suc i + j] a)" for a
  proof
    assume "\<exists>j < length (p # ps). in_subtree ((p # ps) ! j) [i + j] a"
    then obtain j where j: "j < length (p # ps)" "in_subtree ((p # ps) ! j) [i + j] a"
      by blast
    show "in_subtree p [i] a \<or> (\<exists>j < length ps. in_subtree (ps ! j) [Suc i + j] a)"
    proof (cases j)
      case 0
      then show ?thesis using j by simp
    next
      case (Suc j')
      then have "j' < length ps" "in_subtree (ps ! j') [Suc i + j'] a" using j by simp_all
      then show ?thesis by blast
    qed
  next
    assume "in_subtree p [i] a \<or> (\<exists>j < length ps. in_subtree (ps ! j) [Suc i + j] a)"
    then show "\<exists>j < length (p # ps). in_subtree ((p # ps) ! j) [i + j] a"
    proof
      assume "in_subtree p [i] a"
      then have "0 < length (p # ps) \<and> in_subtree ((p # ps) ! 0) [i + 0] a" by simp
      then show ?thesis by blast
    next
      assume "\<exists>j < length ps. in_subtree (ps ! j) [Suc i + j] a"
      then obtain j where "j < length ps" "in_subtree (ps ! j) [Suc i + j] a" by blast
      then have "Suc j < length (p # ps) \<and> in_subtree ((p # ps) ! Suc j) [i + Suc j] a"
        by simp
      then show ?thesis by blast
    qed
  qed
  have "for_pages step (p # ps) i (acc, hp)
      = for_pages step ps (Suc i)
          (g i p acc, \<lambda>a. if in_subtree p [i] a then Some (written a) else hp a)"
    by (simp add: step)
  also have "\<dots> = Some (pfor g ps (Suc i) (g i p acc),
      \<lambda>a. if (\<exists>j < length ps. in_subtree (ps ! j) [Suc i + j] a) then Some (written a)
           else (if in_subtree p [i] a then Some (written a) else hp a))"
    by (rule Cons.IH)
  also have "(\<lambda>a. if (\<exists>j < length ps. in_subtree (ps ! j) [Suc i + j] a) then Some (written a)
           else (if in_subtree p [i] a then Some (written a) else hp a))
      = (\<lambda>a. if (\<exists>j < length (p # ps). in_subtree ((p # ps) ! j) [i + j] a)
              then Some (written a) else hp a)"
    by (rule ext) (unfold ex, auto)
  finally show ?case by simp
qed

lemma in_pages_subtree:
  "in_pages doc a \<longleftrightarrow> (\<exists>j < length (kids doc). in_subtree (kids doc ! j) [0 + j] a)"
proof -
  have "in_subtree doc [] a \<longleftrightarrow> node_at doc a \<noteq> None" by (simp add: in_subtree_def)
  moreover have "in_subtree doc [] a
      \<longleftrightarrow> (a = [] \<or> (\<exists>j < length (kids doc). in_subtree (kids doc ! j) ([] @ [j]) a))"
    by (rule in_subtree_Node)
  moreover have "(\<exists>j < length (kids doc). in_subtree (kids doc ! j) ([] @ [j]) a) \<Longrightarrow> a \<noteq> []"
    using in_subtree_butlast by blast
  ultimately show ?thesis unfolding in_pages_def by auto
qed

lemma for_pages_document:
  assumes "\<And>i p acc hp. step i p (acc, hp)
      = Some (g i p acc, \<lambda>a. if in_subtree p [i] a then Some (written a) else hp a)"
  shows "for_pages step (kids doc) 0 (acc, hp)
           = Some (pfor g (kids doc) 0 acc, store_after doc hp)"
  unfolding for_pages_pure [where g = g, OF assms] store_after_def in_pages_subtree by simp

lemma ui_page_step_pure:
  "ui_page_step componentById doc i p (acc, hp)
     = Some (ui_page_pure componentById doc i p acc,
             \<lambda>a. if in_subtree p [i] a then Some (written a) else hp a)"
  unfolding ui_page_step_def ui_page_pure_def Let_def
  by (simp add: traverse_page [where f = "ui_pure componentById doc [i]
        (str_or (name (attrs p)) ''(isimsiz sayfa)'')", OF visit_ui_linked])

text \<open>
  The three reports end on every document and from every store; the report does not
  depend on the store, and the store afterwards is \<open>store_after\<close>.
\<close>

lemma analyze_ui_components_pure:
  "analyze_ui_components fkey file hp
     = Some (\<lparr>fileName = fileName_of file, fileKey = fkey,
              pages = pfor (ui_page_pure (componentById_of file) (document file))
                        (kids (document file)) 0 []\<rparr>,
             store_after (document file) hp)"
  unfolding analyze_ui_components_def
  by (simp add: for_pages_document [where g = "ui_page_pure (componentById_of file) (document file)",
        OF ui_page_step_pure])

lemma inspect_buttons_pure:
  "inspect_buttons fkey file hp
     = Some (\<lparr>br_fileName = fileName_of file, br_fileKey = fkey,
              br_buttons = pfor (\<lambda>i p. ptrav (button_pure (document file) [i] (inspect_pageName p)) p [i])
                             (kids (document file)) 0 []\<rparr>,
             store_after (document file) hp)"
  unfolding inspect_buttons_def
  by (simp add: for_pages_document [where
        g = "\<lambda>i p. ptrav (button_pure (document file) [i] (inspect_pageName p)) p [i]",
        OF traverse_page [OF visit_button_linked]])

lemma inspect_cards_pure:
  "inspect_cards fkey file hp
     = Some (\<lparr>cr_fileName = fileName_of file, cr_fileKey = fkey,
              cr_cards = pfor (\<lambda>i p. ptrav (card_pure (document file) [i] (inspect_pageName p)) p [i])
                           (kids (document file)) 0 []\<rparr>,
             store_after (document file) hp)"
  unfolding inspect_cards_def
  by (simp add: for_pages_document [where
        g = "\<lambda>i p. ptrav (card_pure (document file) [i] (inspect_pageName p)) p [i]",
        OF traverse_page [OF visit_card_linked]])

section \<open>Runs of the classification report\<close>

lemma fileOne_run:
  "analyze_ui_components ''key'' fileOne Map.empty = Some (reportOne, storeOne)"
  by (simp add: analyze_ui_components_def fileOne_def reportOne_def storeOne_def
      ui_page_step_def visit_ui_def visit_structural_def makePath_def parent_loop.simps
      path_part_def name_at_def id_at_def read_parent_def push_item_def no_items_def
      componentById_of_def fileName_of_def kind_str_def primaryFrame_def eval_defs)

text \<open>
  Claim C4. The classification report ends on every document and from every store, and a
  second run over the same objects, which starts from the store the first run has left,
  gives the same report (and leaves the store as it is).
\<close>

theorem classification_idempotent:
  "(\<exists>rep h1. analyze_ui_components fkey file hp = Some (rep, h1))
   \<and> (\<forall>rep h1. analyze_ui_components fkey file hp = Some (rep, h1) \<longrightarrow>
         analyze_ui_components fkey file h1 = Some (rep, h1))"
proof -
  have "store_after (document file) (store_after (document file) hp)
          = store_after (document file) hp"
    by (rule ext) (simp add: store_after_def)
  then show ?thesis by (simp add: analyze_ui_components_pure)
qed

theorem classification_idempotent_witness:
  "analyze_ui_components ''key'' fileOne Map.empty = Some (reportOne, storeOne)
   \<and> analyze_ui_components ''key'' fileOne storeOne = Some (reportOne, storeOne)"
  using classification_idempotent [of "''key''" fileOne Map.empty] fileOne_run by blast

text \<open>
  Claim C3 as stated fails: the classification of the one-page file from a store in which
  no object has a \<open>__parent\<close> field leaves a store in which the page and the frame have one.
\<close>

theorem classification_writes_parent_counterexample:
  "analyze_ui_components ''key'' fileOne Map.empty = Some (reportOne, storeOne)
   \<and> storeOne [0, 0] = Some (Ref [0]) \<and> storeOne [0] = Some Undefined
   \<and> storeOne \<noteq> Map.empty"
proof -
  have v: "storeOne [0, 0] = Some (Ref [0])" "storeOne [0] = Some Undefined"
    by (simp_all add: storeOne_def)
  have "storeOne \<noteq> Map.empty"
  proof
    assume "storeOne = Map.empty"
    then have "storeOne [0] = Map.empty [0]" by (rule fun_cong)
    then show False using v(2) by simp
  qed
  then show ?thesis using v fileOne_run by blast
qed

section \<open>The analysers on the memory\<close>

text \<open>
  The traversal on the memory against the traversal of a node on the store: when the
  callback on the memory does on the object at every address what the callback on the
  store does on the node there, the traversals do the same, and the memory afterwards
  holds the file it held and the store of the traversal on the store.
\<close>

lemma node_at_snoc:
  "node_at doc r = Some n \<Longrightarrow>
     node_at doc (r @ [i]) = (if i < length (kids n) then Some (kids n ! i) else None)"
proof (induction r arbitrary: doc)
  case Nil
  then show ?case by simp
next
  case (Cons j r)
  then show ?case by (cases "j < length (kids doc)") simp_all
qed

lemma traverse_mem_kids:
  assumes IH: "\<And>k j parent acc hp. k \<in> set ks \<Longrightarrow> node_at (document file) (r @ [j]) = Some k \<Longrightarrow>
      traverse_mem vm (Traverse (r @ [j]) parent) (acc, \<lparr>mem_file = file, mem_parent = hp\<rparr>)
        = lift_mem file (traverse_p v k (r @ [j]) parent (acc, hp))"
    and at: "node_at (document file) r = Some (Node a full)"
    and dr: "drop i full = ks"
  shows "traverse_mem vm (Children r i) (acc, \<lparr>mem_file = file, mem_parent = hp\<rparr>)
           = lift_mem file (traverse_kids v ks r i (acc, hp))"
  using IH dr
proof (induction ks arbitrary: i acc hp)
  case Nil
  then have "length full \<le> i" by simp
  then show ?case
    by (subst traverse_mem.simps) (simp add: children_at_def at lift_mem_def)
next
  case (Cons k ks)
  have i: "i < length full" using Cons.prems(2) by (cases "i < length full") auto
  have k: "full ! i = k" using Cons.prems(2) i
    by (metis nth_via_drop)
  have rest: "drop (Suc i) full = ks" using Cons.prems(2)
    by (metis drop_Suc tl_drop list.sel(3))
  have atk: "node_at (document file) (r @ [i]) = Some k"
    using node_at_snoc [OF at, of i] i k by simp
  have child: "traverse_mem vm (Traverse (r @ [i]) (Ref r))
        (acc, \<lparr>mem_file = file, mem_parent = hp\<rparr>)
      = lift_mem file (traverse_p v k (r @ [i]) (Ref r) (acc, hp))"
    by (rule Cons.prems(1) [OF _ atk]) simp
  have step: "traverse_mem vm (Children r i) (acc, \<lparr>mem_file = file, mem_parent = hp\<rparr>)
      = Option.bind (traverse_mem vm (Traverse (r @ [i]) (Ref r))
                       (acc, \<lparr>mem_file = file, mem_parent = hp\<rparr>))
          (\<lambda>s1. traverse_mem vm (Children r (Suc i)) s1)"
    by (subst traverse_mem.simps) (simp add: children_at_def at i)
  show ?case
  proof (cases "traverse_p v k (r @ [i]) (Ref r) (acc, hp)")
    case None
    then show ?thesis unfolding step child by (simp add: lift_mem_def)
  next
    case (Some s1)
    obtain acc1 hp1 where s1: "s1 = (acc1, hp1)" by (cases s1)
    have "traverse_mem vm (Children r (Suc i)) (acc1, \<lparr>mem_file = file, mem_parent = hp1\<rparr>)
        = lift_mem file (traverse_kids v ks r (Suc i) (acc1, hp1))"
      by (rule Cons.IH [OF _ rest]) (rule Cons.prems(1), simp_all)
    then show ?thesis unfolding step child using Some s1 by (simp add: lift_mem_def)
  qed
qed

lemma traverse_mem_traverse_p:
  assumes rel: "\<And>n r parent acc hp. node_at (document file) r = Some n \<Longrightarrow>
      vm r parent (acc, \<lparr>mem_file = file, mem_parent = hp\<rparr>)
        = lift_mem file (v n r parent (acc, hp))"
  shows "node_at (document file) r = Some n \<Longrightarrow>
     traverse_mem vm (Traverse r parent) (acc, \<lparr>mem_file = file, mem_parent = hp\<rparr>)
       = lift_mem file (traverse_p v n r parent (acc, hp))"
proof (induction n arbitrary: r parent acc hp)
  case (Node a ks)
  have step: "traverse_mem vm (Traverse r parent) (acc, \<lparr>mem_file = file, mem_parent = hp\<rparr>)
      = Option.bind (lift_mem file (v (Node a ks) r parent (acc, hp)))
          (\<lambda>s1. traverse_mem vm (Children r 0) s1)"
    by (subst traverse_mem.simps) (simp add: rel [OF Node.prems])
  show ?case
  proof (cases "v (Node a ks) r parent (acc, hp)")
    case None
    then show ?thesis unfolding step by (simp add: lift_mem_def)
  next
    case (Some s1)
    obtain acc1 hp1 where s1: "s1 = (acc1, hp1)" by (cases s1)
    have "traverse_mem vm (Children r 0) (acc1, \<lparr>mem_file = file, mem_parent = hp1\<rparr>)
        = lift_mem file (traverse_kids v ks r 0 (acc1, hp1))"
    proof (rule traverse_mem_kids [where a = a and full = ks])
      show "node_at (document file) r = Some (Node a ks)" by (rule Node.prems)
      show "drop 0 ks = ks" by simp
      show "traverse_mem vm (Traverse (r @ [j]) parent) (acc, \<lparr>mem_file = file, mem_parent = hp\<rparr>)
          = lift_mem file (traverse_p v k (r @ [j]) parent (acc, hp))"
        if "k \<in> set ks" "node_at (document file) (r @ [j]) = Some k" for k j parent acc hp
        using that by (rule Node.IH)
    qed
    then show ?thesis unfolding step using Some s1 by (simp add: lift_mem_def)
  qed
qed


lemma visit_mem_store:
  "node_at (document file) r = Some n \<Longrightarrow>
     visit_mem visit r parent (acc, \<lparr>mem_file = file, mem_parent = hp\<rparr>)
       = lift_mem file (visit (document file) n r parent (acc, hp))"
  by (cases "visit (document file) n r parent (acc, hp)") (simp_all add: visit_mem_def lift_mem_def)

lemma read_mem_store:
  "node_at (document file) r = Some n \<Longrightarrow>
     read_mem f r parent (acc, \<lparr>mem_file = file, mem_parent = hp\<rparr>)
       = lift_mem file (Some (f n acc, hp))"
  by (simp add: read_mem_def lift_mem_def)

lemma traverse_kids_read:
  assumes "\<And>k j parent acc. k \<in> set ks \<Longrightarrow>
      traverse_p (\<lambda>n r parent s. Some (f n (fst s), snd s)) k (r @ [j]) parent (acc, hp)
        = Some (traverse f k acc, hp)"
  shows "traverse_kids (\<lambda>n r parent s. Some (f n (fst s), snd s)) ks r i (acc, hp)
           = Some (fold (traverse f) ks acc, hp)"
  using assms
proof (induction ks arbitrary: i acc)
  case Nil
  then show ?case by simp
next
  case (Cons k ks)
  have hd: "traverse_p (\<lambda>n r parent s. Some (f n (fst s), snd s)) k (r @ [i]) (Ref r) (acc, hp)
      = Some (traverse f k acc, hp)"
    by (rule Cons.prems) simp
  have "traverse_kids (\<lambda>n r parent s. Some (f n (fst s), snd s)) ks r (Suc i)
        (traverse f k acc, hp)
      = Some (fold (traverse f) ks (traverse f k acc), hp)"
    by (rule Cons.IH) (rule Cons.prems, simp)
  then show ?case using hd by simp
qed

lemma traverse_p_read:
  "traverse_p (\<lambda>n r parent s. Some (f n (fst s), snd s)) n r parent (acc, hp)
     = Some (traverse f n acc, hp)"
proof (induction n arbitrary: r parent acc)
  case (Node a ks)
  have "traverse_kids (\<lambda>n r parent s. Some (f n (fst s), snd s)) ks r 0 (f (Node a ks) acc, hp)
      = Some (fold (traverse f) ks (f (Node a ks) acc), hp)"
    by (rule traverse_kids_read) (rule Node.IH)
  then show ?case by simp
qed

text \<open>A traversal that only reads leaves the memory as it is.\<close>

lemma traverse_mem_read:
  assumes "node_at (document file) r = Some n"
  shows "traverse_mem (read_mem f) (Traverse r parent)
           (acc, \<lparr>mem_file = file, mem_parent = hp\<rparr>)
         = Some (traverse f n acc, \<lparr>mem_file = file, mem_parent = hp\<rparr>)"
proof -
  have "traverse_mem (read_mem f) (Traverse r parent)
           (acc, \<lparr>mem_file = file, mem_parent = hp\<rparr>)
      = lift_mem file (traverse_p (\<lambda>n r parent s. Some (f n (fst s), snd s)) n r parent (acc, hp))"
    by (rule traverse_mem_traverse_p [OF _ assms]) (simp add: read_mem_store)
  then show ?thesis by (simp add: traverse_p_read lift_mem_def)
qed

lemma for_pages_mem:
  assumes "\<And>j acc hp. j < length ps \<Longrightarrow>
      stepm (i + j) (ps ! j) (acc, \<lparr>mem_file = file, mem_parent = hp\<rparr>)
        = lift_mem file (step (i + j) (ps ! j) (acc, hp))"
  shows "for_pages stepm ps i (acc, \<lparr>mem_file = file, mem_parent = hp\<rparr>)
           = lift_mem file (for_pages step ps i (acc, hp))"
  using assms
proof (induction ps arbitrary: i acc hp)
  case Nil
  then show ?case by (simp add: lift_mem_def)
next
  case (Cons p ps)
  have hd: "stepm i p (acc, \<lparr>mem_file = file, mem_parent = hp\<rparr>)
      = lift_mem file (step i p (acc, hp))"
    using Cons.prems [of 0 acc hp] by simp
  have tl: "stepm (Suc i + j) (ps ! j) (acc, \<lparr>mem_file = file, mem_parent = hp\<rparr>)
      = lift_mem file (step (Suc i + j) (ps ! j) (acc, hp))" if "j < length ps" for j acc hp
    using Cons.prems [of "Suc j" acc hp] that by simp
  show ?case
  proof (cases "step i p (acc, hp)")
    case None
    then show ?thesis using hd by (simp add: lift_mem_def)
  next
    case (Some s1)
    obtain acc1 hp1 where s1: "s1 = (acc1, hp1)" by (cases s1)
    have "for_pages stepm ps (Suc i) (acc1, \<lparr>mem_file = file, mem_parent = hp1\<rparr>)
        = lift_mem file (for_pages step ps (Suc i) (acc1, hp1))"
      by (rule Cons.IH) (rule tl)
    then show ?thesis using hd Some s1 by (simp add: lift_mem_def)
  qed
qed

lemma page_at:
  "j < length (kids doc) \<Longrightarrow> node_at doc [j] = Some (kids doc ! j)"
  by simp

lemma children_at_root: "children_at \<lparr>mem_file = file, mem_parent = hp\<rparr> [] = kids (document file)"
  by (simp add: children_at_def)

text \<open>The three analysers that write, on the memory and on the store.\<close>

lemma main_classification_store:
  "main_classification fkey \<lparr>mem_file = file, mem_parent = hp\<rparr>
     = lift_mem file (analyze_ui_components fkey file hp)"
proof -
  have step: "ui_page_step_mem (componentById_of file) (0 + j) (kids (document file) ! j)
        (acc, \<lparr>mem_file = file, mem_parent = hp\<rparr>)
      = lift_mem file (ui_page_step (componentById_of file) (document file) (0 + j)
          (kids (document file) ! j) (acc, hp))"
    if j: "j < length (kids (document file))" for j acc hp
  proof -
    have at: "node_at (document file) [j] = Some (kids (document file) ! j)"
      using j by simp
    have nm: "name_at (document file) [j] = name (attrs (kids (document file) ! j))"
      using j by (simp add: name_at_def)
    have tr: "traverse_mem (visit_mem (\<lambda>doc. visit_ui (componentById_of file) doc [j] pn))
          (Traverse [j] Undefined) (no_items, \<lparr>mem_file = file, mem_parent = hp\<rparr>)
        = lift_mem file (traverse_p (visit_ui (componentById_of file) (document file) [j] pn)
            (kids (document file) ! j) [j] Undefined (no_items, hp))" for pn
      by (rule traverse_mem_traverse_p [OF _ at]) (rule visit_mem_store)
    show ?thesis
      unfolding ui_page_step_mem_def ui_page_step_def Let_def
      by (simp add: nm tr lift_mem_def split: option.split)
  qed
  have "for_pages (ui_page_step_mem (componentById_of file)) (kids (document file)) 0
        ([], \<lparr>mem_file = file, mem_parent = hp\<rparr>)
      = lift_mem file (for_pages (ui_page_step (componentById_of file) (document file))
          (kids (document file)) 0 ([], hp))"
    by (rule for_pages_mem) (rule step)
  then show ?thesis
    unfolding main_classification_def analyze_ui_components_def
    by (simp add: children_at_root lift_mem_def split: option.split)
qed

lemma main_buttons_store:
  "main_buttons fkey \<lparr>mem_file = file, mem_parent = hp\<rparr>
     = lift_mem file (inspect_buttons fkey file hp)"
proof -
  have step: "traverse_mem
        (visit_mem (\<lambda>doc. visit_button doc [0 + j]
           (pageName_at (snd (acc, \<lparr>mem_file = file, mem_parent = hp\<rparr>)) (0 + j))))
        (Traverse [0 + j] Undefined) (acc, \<lparr>mem_file = file, mem_parent = hp\<rparr>)
      = lift_mem file (traverse_p
          (visit_button (document file) [0 + j] (inspect_pageName (kids (document file) ! j)))
          (kids (document file) ! j) [0 + j] Undefined (acc, hp))"
    if j: "j < length (kids (document file))" for j acc hp
  proof -
    have at: "node_at (document file) [j] = Some (kids (document file) ! j)"
      using j by simp
    have nm: "pageName_at \<lparr>mem_file = file, mem_parent = hp\<rparr> j
        = inspect_pageName (kids (document file) ! j)"
      using j by (simp add: pageName_at_def inspect_pageName_def name_at_def)
    have "traverse_mem (visit_mem (\<lambda>doc. visit_button doc [j] pn))
          (Traverse [j] Undefined) (acc, \<lparr>mem_file = file, mem_parent = hp\<rparr>)
        = lift_mem file (traverse_p (visit_button (document file) [j] pn)
            (kids (document file) ! j) [j] Undefined (acc, hp))" for pn
      by (rule traverse_mem_traverse_p [OF _ at]) (rule visit_mem_store)
    then show ?thesis by (simp add: nm)
  qed
  have "for_pages (\<lambda>i page s. traverse_mem
               (visit_mem (\<lambda>doc. visit_button doc [i] (pageName_at (snd s) i)))
               (Traverse [i] Undefined) s)
        (kids (document file)) 0 ([], \<lparr>mem_file = file, mem_parent = hp\<rparr>)
      = lift_mem file (for_pages (\<lambda>i page. traverse_p
               (visit_button (document file) [i] (inspect_pageName page)) page [i] Undefined)
          (kids (document file)) 0 ([], hp))"
    by (rule for_pages_mem) (rule step)
  then show ?thesis
    unfolding main_buttons_def inspect_buttons_def
    by (simp add: children_at_root lift_mem_def split: option.split)
qed

lemma main_cards_store:
  "main_cards fkey \<lparr>mem_file = file, mem_parent = hp\<rparr>
     = lift_mem file (inspect_cards fkey file hp)"
proof -
  have step: "traverse_mem
        (visit_mem (\<lambda>doc. visit_card doc [0 + j]
           (pageName_at (snd (acc, \<lparr>mem_file = file, mem_parent = hp\<rparr>)) (0 + j))))
        (Traverse [0 + j] Undefined) (acc, \<lparr>mem_file = file, mem_parent = hp\<rparr>)
      = lift_mem file (traverse_p
          (visit_card (document file) [0 + j] (inspect_pageName (kids (document file) ! j)))
          (kids (document file) ! j) [0 + j] Undefined (acc, hp))"
    if j: "j < length (kids (document file))" for j acc hp
  proof -
    have at: "node_at (document file) [j] = Some (kids (document file) ! j)"
      using j by simp
    have nm: "pageName_at \<lparr>mem_file = file, mem_parent = hp\<rparr> j
        = inspect_pageName (kids (document file) ! j)"
      using j by (simp add: pageName_at_def inspect_pageName_def name_at_def)
    have "traverse_mem (visit_mem (\<lambda>doc. visit_card doc [j] pn))
          (Traverse [j] Undefined) (acc, \<lparr>mem_file = file, mem_parent = hp\<rparr>)
        = lift_mem file (traverse_p (visit_card (document file) [j] pn)
            (kids (document file) ! j) [j] Undefined (acc, hp))" for pn
      by (rule traverse_mem_traverse_p [OF _ at]) (rule visit_mem_store)
    then show ?thesis by (simp add: nm)
  qed
  have "for_pages (\<lambda>i page s. traverse_mem
               (visit_mem (\<lambda>doc. visit_card doc [i] (pageName_at (snd s) i)))
               (Traverse [i] Undefined) s)
        (kids (document file)) 0 ([], \<lparr>mem_file = file, mem_parent = hp\<rparr>)
      = lift_mem file (for_pages (\<lambda>i page. traverse_p
               (visit_card (document file) [i] (inspect_pageName page)) page [i] Undefined)
          (kids (document file)) 0 ([], hp))"
    by (rule for_pages_mem) (rule step)
  then show ?thesis
    unfolding main_cards_def inspect_cards_def
    by (simp add: children_at_root lift_mem_def split: option.split)
qed

text \<open>The three analysers that only read.\<close>

lemma main_palette_reads:
  "main_palette \<lparr>mem_file = file, mem_parent = hp\<rparr>
     = Some (palette (document file), \<lparr>mem_file = file, mem_parent = hp\<rparr>)"
proof -
  have at: "node_at (document file) [] = Some (document file)" by simp
  show ?thesis
    unfolding main_palette_def palette_def
    by (simp add: traverse_mem_read [OF at])
qed

lemma main_inventory_reads:
  "main_inventory \<lparr>mem_file = file, mem_parent = hp\<rparr>
     = Some (inventory_instanceCounts file, \<lparr>mem_file = file, mem_parent = hp\<rparr>)"
proof -
  have at: "node_at (document file) [] = Some (document file)" by simp
  show ?thesis
    unfolding main_inventory_def inventory_instanceCounts_def instanceCountByComponentId_def
    by (simp add: traverse_mem_read [OF at])
qed

lemma for_pages_map:
  assumes "\<And>j acc. j < length ps \<Longrightarrow> step (i + j) (ps ! j) (acc, m) = Some (acc @ [g (ps ! j)], m)"
  shows "for_pages step ps i (acc, m) = Some (acc @ map g ps, m)"
  using assms
proof (induction ps arbitrary: i acc)
  case Nil
  then show ?case by simp
next
  case (Cons p ps)
  have hd: "step i p (acc, m) = Some (acc @ [g p], m)"
    using Cons.prems [of 0 acc] by simp
  have tl: "step (Suc i + j) (ps ! j) (acc, m) = Some (acc @ [g (ps ! j)], m)"
    if "j < length ps" for j acc
    using Cons.prems [of "Suc j" acc] that by simp
  have "for_pages step ps (Suc i) (acc @ [g p], m) = Some ((acc @ [g p]) @ map g ps, m)"
    by (rule Cons.IH) (rule tl)
  then show ?case using hd by simp
qed

lemma main_usage_reads:
  "main_usage localeCompare fkey \<lparr>mem_file = file, mem_parent = hp\<rparr>
     = Some (analyze_components localeCompare fkey file, \<lparr>mem_file = file, mem_parent = hp\<rparr>)"
proof -
  let ?m = "\<lparr>mem_file = file, mem_parent = hp\<rparr>"
  let ?g = "\<lambda>page. \<lparr>up_pageName = str_or (name (attrs page)) ''(isimsiz sayfa)'',
      up_componentsUsed = componentsUsed localeCompare (componentById_of file) page\<rparr>"
  have step: "usage_page_step localeCompare (componentById_of file) (0 + j)
        (kids (document file) ! j) (acc, ?m)
      = Some (acc @ [?g (kids (document file) ! j)], ?m)"
    if j: "j < length (kids (document file))" for j acc
  proof -
    have at: "node_at (document file) [j] = Some (kids (document file) ! j)"
      using j by simp
    have nm: "name_at (document file) [j] = name (attrs (kids (document file) ! j))"
      using j by (simp add: name_at_def)
    show ?thesis
      unfolding usage_page_step_def Let_def componentsUsed_def
      by (simp add: nm traverse_mem_read [OF at])
  qed
  have "for_pages (usage_page_step localeCompare (componentById_of file))
        (kids (document file)) 0 ([], ?m)
      = Some ([] @ map ?g (kids (document file)), ?m)"
    by (rule for_pages_map) (rule step)
  then show ?thesis
    unfolding main_usage_def analyze_components_def
    by (simp add: children_at_root)
qed

text \<open>
  Claim C3, as amended. Every one of the six analysers ends, on every file and from every
  state of the \<open>__parent\<close> fields. The palette, the usage report and the inventory leave
  the memory as it is. The classification report, the button inspector and the card
  inspector leave the file as it is and write the field \<open>__parent\<close> of the nodes of the
  pages: afterwards every page carries \<open>undefined\<close> and every node below a page carries
  its parent node, whatever was there before; the \<open>__parent\<close> field of any other object
  is as before. On the memory they give the report and the store of the functions on the
  store. So after any of the six every
  object has the fields and the children it had, no object has come or gone, and only the
  field \<open>__parent\<close> of the nodes of the pages can differ. The report is a value beside the
  memory, and the report of the three analysers that write is the same from every store:
  it depends on the file alone and not on a \<open>__parent\<close> that was found.
\<close>

theorem parent_is_the_only_write:
  "main_palette \<lparr>mem_file = file, mem_parent = hp\<rparr>
     = Some (palette (document file), \<lparr>mem_file = file, mem_parent = hp\<rparr>)
   \<and> main_usage localeCompare fkey \<lparr>mem_file = file, mem_parent = hp\<rparr>
       = Some (analyze_components localeCompare fkey file,
               \<lparr>mem_file = file, mem_parent = hp\<rparr>)
   \<and> main_inventory \<lparr>mem_file = file, mem_parent = hp\<rparr>
       = Some (inventory_instanceCounts file, \<lparr>mem_file = file, mem_parent = hp\<rparr>)
   \<and> (\<exists>rep. \<forall>h.
          analyze_ui_components fkey file h = Some (rep, store_after (document file) h) \<and>
          main_classification fkey \<lparr>mem_file = file, mem_parent = h\<rparr>
            = Some (rep, \<lparr>mem_file = file, mem_parent = store_after (document file) h\<rparr>))
   \<and> (\<exists>rep. \<forall>h.
          inspect_buttons fkey file h = Some (rep, store_after (document file) h) \<and>
          main_buttons fkey \<lparr>mem_file = file, mem_parent = h\<rparr>
            = Some (rep, \<lparr>mem_file = file, mem_parent = store_after (document file) h\<rparr>))
   \<and> (\<exists>rep. \<forall>h.
          inspect_cards fkey file h = Some (rep, store_after (document file) h) \<and>
          main_cards fkey \<lparr>mem_file = file, mem_parent = h\<rparr>
            = Some (rep, \<lparr>mem_file = file, mem_parent = store_after (document file) h\<rparr>))
   \<and> (\<forall>a. in_pages (document file) a \<longrightarrow>
          store_after (document file) hp a = Some (written a))
   \<and> (\<forall>a. \<not> in_pages (document file) a \<longrightarrow> store_after (document file) hp a = hp a)
   \<and> (\<forall>a. object_at \<lparr>mem_file = file, mem_parent = store_after (document file) hp\<rparr> a
          = map_option
              (\<lambda>ob. if in_pages (document file) a then ob\<lparr>obj_parent := Some (written a)\<rparr>
                    else ob)
              (object_at \<lparr>mem_file = file, mem_parent = hp\<rparr> a))"
proof -
  have ui: "\<exists>rep. \<forall>h.
          analyze_ui_components fkey file h = Some (rep, store_after (document file) h) \<and>
          main_classification fkey \<lparr>mem_file = file, mem_parent = h\<rparr>
            = Some (rep, \<lparr>mem_file = file, mem_parent = store_after (document file) h\<rparr>)"
    by (simp add: main_classification_store analyze_ui_components_pure lift_mem_def)
  have bt: "\<exists>rep. \<forall>h.
          inspect_buttons fkey file h = Some (rep, store_after (document file) h) \<and>
          main_buttons fkey \<lparr>mem_file = file, mem_parent = h\<rparr>
            = Some (rep, \<lparr>mem_file = file, mem_parent = store_after (document file) h\<rparr>)"
    by (simp add: main_buttons_store inspect_buttons_pure lift_mem_def)
  have cd: "\<exists>rep. \<forall>h.
          inspect_cards fkey file h = Some (rep, store_after (document file) h) \<and>
          main_cards fkey \<lparr>mem_file = file, mem_parent = h\<rparr>
            = Some (rep, \<lparr>mem_file = file, mem_parent = store_after (document file) h\<rparr>)"
    by (simp add: main_cards_store inspect_cards_pure lift_mem_def)
  have st: "\<forall>a. in_pages (document file) a \<longrightarrow>
          store_after (document file) hp a = Some (written a)"
    "\<forall>a. \<not> in_pages (document file) a \<longrightarrow> store_after (document file) hp a = hp a"
    by (simp_all add: store_after_def)
  have ob: "\<forall>a. object_at \<lparr>mem_file = file, mem_parent = store_after (document file) hp\<rparr> a
          = map_option
              (\<lambda>ob. if in_pages (document file) a then ob\<lparr>obj_parent := Some (written a)\<rparr>
                    else ob)
              (object_at \<lparr>mem_file = file, mem_parent = hp\<rparr> a)"
    by (simp add: object_at_def store_after_def split: option.split)
  have rd: "main_palette \<lparr>mem_file = file, mem_parent = hp\<rparr>
       = Some (palette (document file), \<lparr>mem_file = file, mem_parent = hp\<rparr>)"
    "main_usage localeCompare fkey \<lparr>mem_file = file, mem_parent = hp\<rparr>
       = Some (analyze_components localeCompare fkey file,
               \<lparr>mem_file = file, mem_parent = hp\<rparr>)"
    "main_inventory \<lparr>mem_file = file, mem_parent = hp\<rparr>
       = Some (inventory_instanceCounts file, \<lparr>mem_file = file, mem_parent = hp\<rparr>)"
    by (rule main_palette_reads, rule main_usage_reads, rule main_inventory_reads)
  from rd ui bt cd st ob show ?thesis by blast
qed

text \<open>
  On the one-page file: the frame on the page gets its parent, the page \<open>undefined\<close>; the
  document root, which is no node of a page, stays without the field, and no object
  appears at an address that held none. The fields and the children of the frame are as
  before. The palette of the file, taken on the memory that the classification has left,
  leaves the \<open>__parent\<close> fields there as they are.
\<close>

theorem parent_is_the_only_write_witness:
  "in_pages (document fileOne) [0, 0] \<and> in_pages (document fileOne) [0]
   \<and> \<not> in_pages (document fileOne) [] \<and> \<not> in_pages (document fileOne) [0, 1]
   \<and> store_after (document fileOne) Map.empty [0, 0] = Some (Ref [0])
   \<and> store_after (document fileOne) Map.empty [0] = Some Undefined
   \<and> store_after (document fileOne) Map.empty [] = None
   \<and> store_after (document fileOne) Map.empty [0, 1] = None
   \<and> main_classification ''key'' \<lparr>mem_file = fileOne, mem_parent = Map.empty\<rparr>
       = Some (reportOne,
               \<lparr>mem_file = fileOne, mem_parent = store_after (document fileOne) Map.empty\<rparr>)
   \<and> object_at \<lparr>mem_file = fileOne, mem_parent = Map.empty\<rparr> [0, 0]
       = Some \<lparr>obj_fields = attrs primaryFrame, obj_children = [], obj_parent = None\<rparr>
   \<and> object_at \<lparr>mem_file = fileOne, mem_parent = store_after (document fileOne) Map.empty\<rparr>
        [0, 0]
       = Some \<lparr>obj_fields = attrs primaryFrame, obj_children = [],
               obj_parent = Some (Ref [0])\<rparr>
   \<and> object_at \<lparr>mem_file = fileOne, mem_parent = store_after (document fileOne) Map.empty\<rparr>
        [0, 1] = None
   \<and> main_palette \<lparr>mem_file = fileOne, mem_parent = storeOne\<rparr>
       = Some ([], \<lparr>mem_file = fileOne, mem_parent = storeOne\<rparr>)"
proof -
  note t = parent_is_the_only_write [of fileOne Map.empty _ "''key''"]
  have a: "in_pages (document fileOne) [0, 0]" "in_pages (document fileOne) [0]"
    "\<not> in_pages (document fileOne) []" "\<not> in_pages (document fileOne) [0, 1]"
    by (simp_all add: in_pages_def fileOne_def primaryFrame_def)
  have w: "written [0, 0] = Ref [0]" "written [0] = Undefined" by (simp_all add: written_def)
  have s: "store_after (document fileOne) Map.empty [0, 0] = Some (Ref [0])"
    "store_after (document fileOne) Map.empty [0] = Some Undefined"
    "store_after (document fileOne) Map.empty [] = None"
    "store_after (document fileOne) Map.empty [0, 1] = None"
    using t a w by simp_all
  from t obtain rep where rep: "\<forall>h.
      analyze_ui_components ''key'' fileOne h = Some (rep, store_after (document fileOne) h) \<and>
      main_classification ''key'' \<lparr>mem_file = fileOne, mem_parent = h\<rparr>
        = Some (rep, \<lparr>mem_file = fileOne, mem_parent = store_after (document fileOne) h\<rparr>)"
    by blast
  have "main_classification ''key'' \<lparr>mem_file = fileOne, mem_parent = Map.empty\<rparr>
      = Some (reportOne, \<lparr>mem_file = fileOne, mem_parent = storeOne\<rparr>)"
    by (simp add: main_classification_store lift_mem_def fileOne_run)
  with rep have r1: "rep = reportOne" by simp
  have run: "main_classification ''key'' \<lparr>mem_file = fileOne, mem_parent = Map.empty\<rparr>
       = Some (reportOne,
               \<lparr>mem_file = fileOne, mem_parent = store_after (document fileOne) Map.empty\<rparr>)"
    using rep r1 by simp
  have o0: "object_at \<lparr>mem_file = fileOne, mem_parent = Map.empty\<rparr> [0, 0]
       = Some \<lparr>obj_fields = attrs primaryFrame, obj_children = [], obj_parent = None\<rparr>"
    "object_at \<lparr>mem_file = fileOne, mem_parent = Map.empty\<rparr> [0, 1] = None"
    by (simp_all add: object_at_def fileOne_def primaryFrame_def)
  from t have o: "object_at
        \<lparr>mem_file = fileOne, mem_parent = store_after (document fileOne) Map.empty\<rparr> a
      = map_option
          (\<lambda>ob. if in_pages (document fileOne) a then ob\<lparr>obj_parent := Some (written a)\<rparr>
                else ob)
          (object_at \<lparr>mem_file = fileOne, mem_parent = Map.empty\<rparr> a)" for a
    by blast
  have o1: "object_at \<lparr>mem_file = fileOne, mem_parent = store_after (document fileOne) Map.empty\<rparr>
        [0, 0]
       = Some \<lparr>obj_fields = attrs primaryFrame, obj_children = [],
               obj_parent = Some (Ref [0])\<rparr>"
    unfolding o o0 using a w by simp
  have o2: "object_at \<lparr>mem_file = fileOne, mem_parent = store_after (document fileOne) Map.empty\<rparr>
        [0, 1] = None"
    unfolding o o0 by simp
  have pl: "palette (document fileOne) = []"
    by (simp add: palette_def palette_visit_def array_sort_def fileOne_def primaryFrame_def
        blank_def)
  from parent_is_the_only_write [of fileOne storeOne]
  have p: "main_palette \<lparr>mem_file = fileOne, mem_parent = storeOne\<rparr>
       = Some ([], \<lparr>mem_file = fileOne, mem_parent = storeOne\<rparr>)"
    unfolding pl by blast
  from a s run o0 o1 o2 p show ?thesis by blast
qed

lemma isUiComponentName_nonempty: "isUiComponentName nm \<Longrightarrow> nm \<noteq> []"
  by (auto simp: isUiComponentName_def uiHints_def toLowerCase_def)

text \<open>
  Claim C10. An INSTANCE node whose component id is in the dictionary under a name that
  matches a keyword of the UI components but none of the keywords that decide a kind is
  added to none of the three lists, and the structural classifier is not consulted: this
  holds whatever the geometry, fills and children of the node are. The lists of the
  report are those of \<open>ui_pure\<close> (lemma \<open>analyze_ui_components_pure\<close>); the visitor gives the
  same on every store that is linked once the parent is written, as the stores on which
  the traversal of a page calls it are.
\<close>

theorem generic_ui_instances_unclassified:
  assumes "type (attrs n) = Some ''INSTANCE''"
    and "componentId (attrs n) = Some cid"
    and "componentById cid = Some m"
    and "meta_name m = Some dn"
    and "isUiComponentName dn"
    and "\<not> specificKind dn"
  shows "ui_pure componentById doc page pgName n r ls = ls
         \<and> (linked (hp(r \<mapsto> parent)) page r \<longrightarrow>
              visit_ui componentById doc page pgName n r parent (ls, hp)
                = Some (ls, hp(r \<mapsto> parent)))"
proof -
  have ne: "dn \<noteq> []" using assms(5) by (rule isUiComponentName_nonempty)
  have nm: "instance_name componentById n = dn"
    using assms(2,3,4) ne by (simp add: instance_name_def str_or_def)
  have cat: "instanceCat dn = None"
    using assms(6) by (simp add: instanceCat_def specificKind_def)
  have pure: "ui_pure componentById doc page pgName n r ls = ls"
    using assms(1,2,5) unfolding ui_pure_def Let_def nm cat
    by (simp add: push_item_def)
  then show ?thesis by (simp add: visit_ui_linked)
qed

theorem generic_ui_instances_unclassified_witness:
  "type (attrs checkboxInstance) = Some ''INSTANCE''
   \<and> componentId (attrs checkboxInstance) = Some ''1:3''
   \<and> dict0 ''1:3'' = Some (someMeta ''Checkbox'')
   \<and> meta_name (someMeta ''Checkbox'') = Some ''Checkbox''
   \<and> isUiComponentName ''Checkbox'' \<and> \<not> specificKind ''Checkbox''
   \<and> classifyStructuralUi checkboxInstance = Some Button
   \<and> linked (Map.empty([0, 0] \<mapsto> Ref [0])) [0] [0, 0]
   \<and> visit_ui dict0 (Node blank [Node blank [checkboxInstance]]) [0] ''Page''
        checkboxInstance [0, 0] (Ref [0]) (no_items, Map.empty)
      = Some (no_items, [[0, 0] \<mapsto> Ref [0]])"
proof -
  have a: "type (attrs checkboxInstance) = Some ''INSTANCE''"
    by (simp add: checkboxInstance_def blank_def)
  have b: "componentId (attrs checkboxInstance) = Some ''1:3''"
    by (simp add: checkboxInstance_def blank_def)
  have c: "dict0 ''1:3'' = Some (someMeta ''Checkbox'')" by (simp add: dict0_def)
  have d: "meta_name (someMeta ''Checkbox'') = Some ''Checkbox''" by (simp add: someMeta_def)
  have e: "isUiComponentName ''Checkbox''" by (simp add: eval_defs)
  have f: "\<not> specificKind ''Checkbox''"
    by (simp add: specificKind_def toLowerCase_def toLowerChar_def)
  have g: "classifyStructuralUi checkboxInstance = Some Button"
    by (simp add: checkboxInstance_def eval_defs)
  have l: "linked (Map.empty([0, 0] \<mapsto> Ref [0])) [0] [0, 0]"
  proof -
    have "(Map.empty([0, 0] \<mapsto> Ref [0])) (take k [0, 0]) = Some (Ref (take (k - 1) [0, 0]))"
      if "length [0::nat] < k" "k \<le> length [0::nat, 0]" for k
    proof -
      have "k = Suc (Suc 0)" using that by simp
      then show ?thesis by simp
    qed
    then show ?thesis unfolding linked_def by simp

  qed
  from generic_ui_instances_unclassified [where n = checkboxInstance and componentById = dict0
      and cid = "''1:3''" and m = "someMeta ''Checkbox''" and dn = "''Checkbox''",
      OF a b c d e f, of "Node blank [Node blank [checkboxInstance]]" "[0]" "''Page''"
        "[0, 0]" no_items Map.empty "Ref [0]"] l
  have "visit_ui dict0 (Node blank [Node blank [checkboxInstance]]) [0] ''Page''
        checkboxInstance [0, 0] (Ref [0]) (no_items, Map.empty)
      = Some (no_items, [[0, 0] \<mapsto> Ref [0]])" by simp
  with a b c d e f g l show ?thesis by blast
qed

section \<open>Icon names in the classification report\<close>

lemma linked_child_of_page: "linked (hp([i, j] \<mapsto> Ref [i])) [i] [i, j]"
proof -
  have "(hp([i, j] \<mapsto> Ref [i])) (take k [i, j]) = Some (Ref (take (k - 1) [i, j]))"
    if "length [i] < k" "k \<le> length [i, j]" for k
  proof -
    have "k = Suc (Suc 0)" using that by simp
    then show ?thesis by simp
  qed
  then show ?thesis unfolding linked_def by simp
qed

text \<open>
  Claim C6, as amended. Icon keywords take precedence where the report checks them: on an
  INSTANCE node with a component id. When the name such a node is judged by (the name of
  its component in the dictionary, else its own name) matches an icon keyword, the visitor
  adds the node to none of the three lists, also when that name holds a keyword of the
  buttons, inputs or cards; it only records the parent. A node that is not an INSTANCE
  with a component id is left to the structural classifier: it goes on the list of the
  category that \<open>classifyStructuralUi\<close> returns, and on no list when it returns none.
  This is stated for the lists the report is built from (\<open>ui_pure\<close>, lemma
  \<open>analyze_ui_components_pure\<close>) and for the visitor on every store that is linked once
  the parent is written, as the stores on which the traversal of a page calls it are.
  The structural classifier has no icon check: on a node of one of the kinds FRAME, GROUP,
  COMPONENT, INSTANCE, RECTANGLE with a keyword of the name shortcuts in its lower-cased
  name it returns the category of the first keyword group found, button, then input, then
  card, whether or not the name matches an icon keyword; a node of another kind gets no
  category.
\<close>

theorem icon_precedence_on_instances:
  "(type (attrs n) = Some ''INSTANCE'' \<and> componentId (attrs n) \<noteq> None \<and>
      isIconComponentName (instance_name componentById n) \<longrightarrow>
      visit_ui componentById doc page pgName n r parent s
        = Some (fst s, (snd s)(r \<mapsto> parent)))
   \<and> (\<not> (type (attrs n) = Some ''INSTANCE'' \<and> componentId (attrs n) \<noteq> None) \<longrightarrow>
      ui_pure componentById doc page pgName n r ls
        = (case classifyStructuralUi n of
             None \<Rightarrow> ls
           | Some k \<Rightarrow>
               push_item (Some k)
                 \<lparr>item_name = str_or (name (attrs n)) (kind_str k),
                  item_path = path_of doc page pgName r\<rparr> ls))
   \<and> (\<not> (type (attrs n) = Some ''INSTANCE'' \<and> componentId (attrs n) \<noteq> None) \<and>
      linked ((snd s)(r \<mapsto> parent)) page r \<longrightarrow>
      visit_ui componentById doc page pgName n r parent s
        = Some ((case classifyStructuralUi n of
                   None \<Rightarrow> fst s
                 | Some k \<Rightarrow>
                     push_item (Some k)
                       \<lparr>item_name = str_or (name (attrs n)) (kind_str k),
                        item_path = path_of doc page pgName r\<rparr> (fst s)),
                (snd s)(r \<mapsto> parent)))
   \<and> (structuralType n \<and> nameShortcut n \<longrightarrow>
        nameKind n \<noteq> None \<and> classifyStructuralUi n = nameKind n)
   \<and> (\<not> structuralType n \<longrightarrow> classifyStructuralUi n = None)"
proof -
  have inst: "type (attrs n) = Some ''INSTANCE'' \<and> componentId (attrs n) \<noteq> None \<and>
      isIconComponentName (instance_name componentById n) \<longrightarrow>
      visit_ui componentById doc page pgName n r parent s
        = Some (fst s, (snd s)(r \<mapsto> parent))"
  proof
    assume a: "type (attrs n) = Some ''INSTANCE'' \<and> componentId (attrs n) \<noteq> None \<and>
      isIconComponentName (instance_name componentById n)"
    then have "instance_name componentById n \<noteq> []"
      using isIconComponentName_nonempty by blast
    then show "visit_ui componentById doc page pgName n r parent s
        = Some (fst s, (snd s)(r \<mapsto> parent))"
      using a unfolding visit_ui_def Let_def by simp
  qed
  have lists: "\<not> (type (attrs n) = Some ''INSTANCE'' \<and> componentId (attrs n) \<noteq> None) \<longrightarrow>
      ui_pure componentById doc page pgName n r ls
        = (case classifyStructuralUi n of
             None \<Rightarrow> ls
           | Some k \<Rightarrow>
               push_item (Some k)
                 \<lparr>item_name = str_or (name (attrs n)) (kind_str k),
                  item_path = path_of doc page pgName r\<rparr> ls)"
    unfolding ui_pure_def Let_def by auto
  have other: "\<not> (type (attrs n) = Some ''INSTANCE'' \<and> componentId (attrs n) \<noteq> None) \<and>
      linked ((snd s)(r \<mapsto> parent)) page r \<longrightarrow>
      visit_ui componentById doc page pgName n r parent s
        = Some ((case classifyStructuralUi n of
                   None \<Rightarrow> fst s
                 | Some k \<Rightarrow>
                     push_item (Some k)
                       \<lparr>item_name = str_or (name (attrs n)) (kind_str k),
                        item_path = path_of doc page pgName r\<rparr> (fst s)),
                (snd s)(r \<mapsto> parent))"
  proof
    assume a: "\<not> (type (attrs n) = Some ''INSTANCE'' \<and> componentId (attrs n) \<noteq> None) \<and>
      linked ((snd s)(r \<mapsto> parent)) page r"
    then have lk: "linked ((snd s)(r \<mapsto> parent)) page r" by blast
    have "visit_ui componentById doc page pgName n r parent (fst s, snd s)
        = Some (ui_pure componentById doc page pgName n r (fst s), (snd s)(r \<mapsto> parent))"
      using lk by (rule visit_ui_linked)
    moreover have "ui_pure componentById doc page pgName n r (fst s)
        = (case classifyStructuralUi n of
             None \<Rightarrow> fst s
           | Some k \<Rightarrow>
               push_item (Some k)
                 \<lparr>item_name = str_or (name (attrs n)) (kind_str k),
                  item_path = path_of doc page pgName r\<rparr> (fst s))"
      using a unfolding ui_pure_def Let_def by auto
    ultimately show "visit_ui componentById doc page pgName n r parent s
        = Some ((case classifyStructuralUi n of
                   None \<Rightarrow> fst s
                 | Some k \<Rightarrow>
                     push_item (Some k)
                       \<lparr>item_name = str_or (name (attrs n)) (kind_str k),
                        item_path = path_of doc page pgName r\<rparr> (fst s)),
                (snd s)(r \<mapsto> parent))"
      by simp
  qed
  have short: "structuralType n \<and> nameShortcut n \<longrightarrow>
        nameKind n \<noteq> None \<and> classifyStructuralUi n = nameKind n"
    unfolding classifyStructuralUi_def structuralType_def nameShortcut_def nameKind_def Let_def
    by auto
  have kind: "\<not> structuralType n \<longrightarrow> classifyStructuralUi n = None"
    unfolding classifyStructuralUi_def structuralType_def Let_def by auto
  from inst lists other short kind show ?thesis by blast
qed

text \<open>
  The instance named "icon button" of a component outside the dictionary goes on no list.
  The frames named "icon button", "icon input" and "icon card" have icon names and are a
  button, an input and a card; the first, visited as the child of a page, goes on the list
  of the buttons. The text node named "icon button" gets no category.
\<close>

theorem icon_precedence_on_instances_witness:
  "type (attrs iconButtonInstance) = Some ''INSTANCE''
   \<and> componentId (attrs iconButtonInstance) \<noteq> None
   \<and> isIconComponentName (instance_name dict0 iconButtonInstance)
   \<and> isUiComponentName (instance_name dict0 iconButtonInstance)
   \<and> visit_ui dict0 (Node blank [iconButtonInstance]) [0] ''Page'' iconButtonInstance [0, 0]
        (Ref [0]) emptyState
      = Some (no_items, [[0, 0] \<mapsto> Ref [0]])
   \<and> linked ((snd emptyState)([0, 0] \<mapsto> Ref [0])) [0] [0, 0]
   \<and> visit_ui dict0 iconDoc [0] ''Page'' iconButtonFrame [0, 0] (Ref [0]) emptyState
      = Some (\<lparr>buttons = [\<lparr>item_name = ''icon button'', item_path = ''Page / icon button''\<rparr>],
               inputs = [], cards = []\<rparr>, [[0, 0] \<mapsto> Ref [0]])
   \<and> ui_pure dict0 iconDoc [0] ''Page'' iconButtonFrame [0, 0] no_items
      = \<lparr>buttons = [\<lparr>item_name = ''icon button'', item_path = ''Page / icon button''\<rparr>],
         inputs = [], cards = []\<rparr>
   \<and> isIconComponentName (str_or (name (attrs iconButtonFrame)) '''')
   \<and> structuralType iconButtonFrame \<and> nameShortcut iconButtonFrame
   \<and> classifyStructuralUi iconButtonFrame = Some Button
   \<and> isIconComponentName (str_or (name (attrs iconInputFrame)) '''')
   \<and> structuralType iconInputFrame \<and> nameShortcut iconInputFrame
   \<and> classifyStructuralUi iconInputFrame = Some Input
   \<and> isIconComponentName (str_or (name (attrs iconCardFrame)) '''')
   \<and> structuralType iconCardFrame \<and> nameShortcut iconCardFrame
   \<and> classifyStructuralUi iconCardFrame = Some Card
   \<and> isIconComponentName (str_or (name (attrs iconButtonText)) '''')
   \<and> \<not> structuralType iconButtonText \<and> classifyStructuralUi iconButtonText = None"
proof -
  have a: "type (attrs iconButtonInstance) = Some ''INSTANCE''"
    by (simp add: iconButtonInstance_def blank_def)
  have b: "componentId (attrs iconButtonInstance) \<noteq> None"
    by (simp add: iconButtonInstance_def blank_def)
  have nm: "instance_name dict0 iconButtonInstance = ''icon button''"
    by (simp add: instance_name_def iconButtonInstance_def dict0_def blank_def str_or_def)
  have c: "isIconComponentName (instance_name dict0 iconButtonInstance)"
    unfolding nm by (simp add: eval_defs)
  have d: "isUiComponentName (instance_name dict0 iconButtonInstance)"
    unfolding nm by (simp add: eval_defs)
  from icon_precedence_on_instances [where n = iconButtonInstance and componentById = dict0
      and doc = "Node blank [iconButtonInstance]" and page = "[0]" and pgName = "''Page''"
      and r = "[0, 0]" and parent = "Ref [0]" and s = emptyState] a b c
  have e: "visit_ui dict0 (Node blank [iconButtonInstance]) [0] ''Page'' iconButtonInstance
        [0, 0] (Ref [0]) emptyState
      = Some (no_items, [[0, 0] \<mapsto> Ref [0]])"
    by (simp add: emptyState_def)
  have lk: "linked ((snd emptyState)([0, 0] \<mapsto> Ref [0])) [0] [0, 0]"
    by (rule linked_child_of_page)
  have ni: "\<not> (type (attrs iconButtonFrame) = Some ''INSTANCE'' \<and>
      componentId (attrs iconButtonFrame) \<noteq> None)"
    by (simp add: iconButtonFrame_def blank_def)
  have ic: "isIconComponentName (str_or (name (attrs iconButtonFrame)) '''')"
    "isIconComponentName (str_or (name (attrs iconInputFrame)) '''')"
    "isIconComponentName (str_or (name (attrs iconCardFrame)) '''')"
    "isIconComponentName (str_or (name (attrs iconButtonText)) '''')"
    by (simp_all add: iconButtonFrame_def iconInputFrame_def iconCardFrame_def
        iconButtonText_def eval_defs)
  have ty: "structuralType iconButtonFrame" "structuralType iconInputFrame"
    "structuralType iconCardFrame" "\<not> structuralType iconButtonText"
    by (simp_all add: iconButtonFrame_def iconInputFrame_def iconCardFrame_def
        iconButtonText_def eval_defs)
  have kw: "nameShortcut iconButtonFrame" "nameShortcut iconInputFrame"
    "nameShortcut iconCardFrame"
    by (simp_all add: iconButtonFrame_def iconInputFrame_def iconCardFrame_def eval_defs)
  have nk: "nameKind iconButtonFrame = Some Button" "nameKind iconInputFrame = Some Input"
    "nameKind iconCardFrame = Some Card"
    by (simp_all add: nameKind_def iconButtonFrame_def iconInputFrame_def iconCardFrame_def
        eval_defs)
  from icon_precedence_on_instances [of iconButtonFrame] ty(1) kw(1) nk(1)
  have k1: "classifyStructuralUi iconButtonFrame = Some Button" by simp
  from icon_precedence_on_instances [of iconInputFrame] ty(2) kw(2) nk(2)
  have k2: "classifyStructuralUi iconInputFrame = Some Input" by simp
  from icon_precedence_on_instances [of iconCardFrame] ty(3) kw(3) nk(3)
  have k3: "classifyStructuralUi iconCardFrame = Some Card" by simp
  from icon_precedence_on_instances [of iconButtonText] ty(4)
  have k4: "classifyStructuralUi iconButtonText = None" by simp
  have pth: "path_of iconDoc [0] ''Page'' [0, 0] = ''Page / icon button''"
    by (simp add: path_of_def chain_refs_def path_part_def name_at_def id_at_def iconDoc_def
        iconButtonFrame_def blank_def str_or_def)
  from icon_precedence_on_instances [where n = iconButtonFrame and componentById = dict0
      and doc = iconDoc and page = "[0]" and pgName = "''Page''" and r = "[0, 0]"
      and parent = "Ref [0]" and s = emptyState] ni lk
  have "visit_ui dict0 iconDoc [0] ''Page'' iconButtonFrame [0, 0] (Ref [0]) emptyState
      = Some ((case classifyStructuralUi iconButtonFrame of
                 None \<Rightarrow> fst emptyState
               | Some k \<Rightarrow>
                   push_item (Some k)
                     \<lparr>item_name = str_or (name (attrs iconButtonFrame)) (kind_str k),
                      item_path = path_of iconDoc [0] ''Page'' [0, 0]\<rparr> (fst emptyState)),
              (snd emptyState)([0, 0] \<mapsto> Ref [0]))"
    by blast
  then have f: "visit_ui dict0 iconDoc [0] ''Page'' iconButtonFrame [0, 0] (Ref [0]) emptyState
      = Some (\<lparr>buttons = [\<lparr>item_name = ''icon button'', item_path = ''Page / icon button''\<rparr>],
               inputs = [], cards = []\<rparr>, [[0, 0] \<mapsto> Ref [0]])"
    unfolding k1 pth
    by (simp add: emptyState_def push_item_def no_items_def kind_str_def iconButtonFrame_def
        blank_def str_or_def)
  from icon_precedence_on_instances [where n = iconButtonFrame and componentById = dict0
      and doc = iconDoc and page = "[0]" and pgName = "''Page''" and r = "[0, 0]"
      and ls = no_items] ni
  have "ui_pure dict0 iconDoc [0] ''Page'' iconButtonFrame [0, 0] no_items
      = (case classifyStructuralUi iconButtonFrame of
           None \<Rightarrow> no_items
         | Some k \<Rightarrow>
             push_item (Some k)
               \<lparr>item_name = str_or (name (attrs iconButtonFrame)) (kind_str k),
                item_path = path_of iconDoc [0] ''Page'' [0, 0]\<rparr> no_items)"
    by blast
  then have g: "ui_pure dict0 iconDoc [0] ''Page'' iconButtonFrame [0, 0] no_items
      = \<lparr>buttons = [\<lparr>item_name = ''icon button'', item_path = ''Page / icon button''\<rparr>],
         inputs = [], cards = []\<rparr>"
    unfolding k1 pth
    by (simp add: push_item_def no_items_def kind_str_def iconButtonFrame_def blank_def
        str_or_def)
  from a b c d e lk f g ic ty kw k1 k2 k3 k4 show ?thesis by blast
qed

section \<open>The card inspector and the structural classifier\<close>

text \<open>
  The card inspector has a test of its own, \<open>classifyAsCard\<close>. It accepts every node that
  the structural classifier calls a card, and more: a stroke is enough where the
  structural classifier asks for a solid fill.
\<close>

lemma str_or_empty: "str_or s [] = (case s of None \<Rightarrow> [] | Some v \<Rightarrow> v)"
  by (simp add: str_or_def split: option.split)

lemma classifyAsCard_wider:
  assumes "classifyStructuralUi n = Some Card"
  shows "classifyAsCard n"
proof -
  have fill: "hasAnySolidFill n \<Longrightarrow>
      list_ex (\<lambda>p. ptype p = Some ''SOLID'' \<and> visible p \<noteq> Some False) (fills (attrs n))"
    unfolding hasAnySolidFill_def list_ex_iff by blast
  show ?thesis
    using assms fill
    unfolding classifyStructuralUi_def classifyAsCard_def Let_def str_or_empty
    by (auto split: if_splits option.splits)
qed

lemma classifyAsCard_strokeFrame:
  "classifyAsCard strokeFrame \<and> classifyStructuralUi strokeFrame = None"
  by (simp add: strokeFrame_def classifyAsCard_def eval_defs)

end
